theory Spec2Isabelle
  imports Main "HOL-Library.Word" "HOL-Library.Code_Target_Nat"
begin

unbundle bit_operations_syntax

section \<open>Memory, machine integers and errors\<close>

text \<open>
  The embedding follows \<^verbatim>\<open>Allocators.h\<close> with \<^verbatim>\<open>ThreadSafe = false\<close>.
  A pool owns one allocation; its bytes are a list of 8-bit words, and every pointer into
  the allocation is the byte offset from its start (\<^verbatim>\<open>pLut = pPoolBlockStart\<close> is
  offset 0). The \<^verbatim>\<open>uint64_t\<close> fields are natural numbers and each arithmetic
  operation of the source that can wrap is written with \<open>u64\<close>. Pointer arithmetic is
  not wrapped: its overflow is undefined in C++.
\<close>

type_synonym u8 = "8 word"

definition u64 :: "nat \<Rightarrow> nat" where
  "u64 n = n mod 2 ^ 64"

text \<open>
  \<^verbatim>\<open>std::bad_alloc\<close>, \<^verbatim>\<open>std::out_of_range\<close>, and \<open>Undefined\<close> for what C++ leaves
  undefined and a run would crash on or corrupt memory with: an access outside the
  pool's allocation, a null or foreign container, a division by zero.
\<close>

datatype error = BadAlloc | OutOfRange | Undefined

definition load :: "u8 list \<Rightarrow> nat \<Rightarrow> u8 option" where
  "load m a = (if a < length m then Some (m ! a) else None)"

definition store :: "u8 list \<Rightarrow> nat \<Rightarrow> u8 \<Rightarrow> u8 list option" where
  "store m a v = (if a < length m then Some (m[a := v]) else None)"

text \<open>\<^verbatim>\<open>std::memcpy(dst + d, src + s, n)\<close>; both ranges must lie in their allocations.\<close>

definition memcpy :: "u8 list \<Rightarrow> nat \<Rightarrow> u8 list \<Rightarrow> nat \<Rightarrow> nat \<Rightarrow> u8 list option" where
  "memcpy dst d src s n =
     (if d + n \<le> length dst \<and> s + n \<le> length src
      then Some (take d dst @ take n (drop s src) @ drop (d + n) dst)
      else None)"

text \<open>
  \<^verbatim>\<open>AlignedAllocator::Alloc\<close>: a fresh block of \<open>n\<close> bytes, zeroed by \<^verbatim>\<open>memset\<close>.
  The system allocator is taken to succeed.
\<close>

definition Alloc :: "nat \<Rightarrow> u8 list" where
  "Alloc n = replicate n 0"

section \<open>OffsetPtr\<close>

text \<open>
  \<open>pContainer\<close> is \<open>None\<close> for \<^verbatim>\<open>nullptr\<close> and \<open>Some c\<close> for a pointer to the pool
  allocator identified by \<open>c\<close>.
\<close>

record OffsetPtr =
  offset :: nat
  pContainer :: "nat option"

definition OffsetPtr_default :: OffsetPtr where
  "OffsetPtr_default = \<lparr>offset = 0, pContainer = None\<rparr>"

definition OffsetPtr_make :: "nat \<Rightarrow> nat \<Rightarrow> OffsetPtr" where
  "OffsetPtr_make pPool elementOffset = \<lparr>offset = elementOffset, pContainer = Some pPool\<rparr>"

definition Internal :: "OffsetPtr \<Rightarrow> nat" where
  "Internal h = offset h"

definition ZeroOut :: "OffsetPtr \<Rightarrow> OffsetPtr" where
  "ZeroOut h = h\<lparr>offset := 0, pContainer := None\<rparr>"

section \<open>Pool\<close>

text \<open>
  \<open>poolBlock\<close> holds the bytes of the allocation that \<^verbatim>\<open>pPoolBlockStart\<close> points to;
  \<open>pMem\<close> is the offset of the object region in it. \<open>sizeP\<close> is the field \<^verbatim>\<open>size\<close>.
\<close>

record Pool =
  poolBlock :: "u8 list"
  pMem :: nat
  capacity :: nat
  sizeP :: nat
  poolItemSize :: nat

definition Pool_init :: "nat \<Rightarrow> nat \<Rightarrow> Pool" where
  "Pool_init elementSize poolCapacity =
     \<lparr>poolBlock = Alloc (u64 (poolCapacity div 8 + u64 (elementSize * poolCapacity))),
      pMem = poolCapacity div 8,
      capacity = poolCapacity,
      sizeP = 0,
      poolItemSize = elementSize\<rparr>"

definition Reallocate :: "Pool \<Rightarrow> error + Pool" where
  "Reallocate old =
     (let cap = u64 (capacity old * 2);
          pNewMemory = Alloc (u64 (cap div 8 + u64 (poolItemSize old * cap)));
          mem = cap div 8
      in case memcpy pNewMemory 0 (poolBlock old) 0 (capacity old div 8) of
           None \<Rightarrow> Inl Undefined
         | Some b1 \<Rightarrow>
             (case memcpy b1 mem (poolBlock old) (pMem old)
                     (u64 (poolItemSize old * capacity old)) of
                None \<Rightarrow> Inl Undefined
              | Some b2 \<Rightarrow> Inr (old\<lparr>poolBlock := b2, pMem := mem, capacity := cap\<rparr>)))"

text \<open>\<^verbatim>\<open>Pool::Internal\<close>: the base of the object region.\<close>

definition Pool_Internal :: "Pool \<Rightarrow> nat" where
  "Pool_Internal p = pMem p"

text \<open>
  \<^verbatim>\<open>OffsetPtr<Type>::Resolve\<close> for a handle whose container is the pool \<open>p\<close> known as
  \<open>self\<close>: \<^verbatim>\<open>static_cast<Type*>(pContainer->Internal()) + offset\<close>, with \<open>sz\<close> for
  \<^verbatim>\<open>sizeof(Type)\<close>. A null container is dereferenced, and the address a foreign
  container gives is not an offset into this pool's allocation.
\<close>

definition Resolve :: "nat \<Rightarrow> nat \<Rightarrow> Pool \<Rightarrow> OffsetPtr \<Rightarrow> nat option" where
  "Resolve sz self p h =
     (case pContainer h of
        None \<Rightarrow> None
      | Some c \<Rightarrow> if c = self then Some (Pool_Internal p + offset h * sz) else None)"

section \<open>FixedTypeAllocator\<close>

text \<open>
  A \<^verbatim>\<open>Type\<close> is given by the object representation that \<^verbatim>\<open>new (p) Type()\<close> writes;
  \<^verbatim>\<open>sizeof(Type)\<close> is its length. The reallocation callback is the default no-op.
\<close>

type_synonym Type = "u8 list"

definition FixedTypeAllocator_init :: "Type \<Rightarrow> nat \<Rightarrow> Pool" where
  "FixedTypeAllocator_init T Size = Pool_init (length T) Size"

text \<open>The inner loop of \<^verbatim>\<open>Get\<close> over the bits \<open>j\<close> of one bitmap byte.\<close>

function scan_byte :: "u8 \<Rightarrow> nat \<Rightarrow> nat option" where
  "scan_byte b j =
     (if j < 8
      then (if NOT b AND push_bit j 1 \<noteq> 0 then Some j else scan_byte b (Suc j))
      else None)"
  by pat_completeness auto
termination
  by (relation "measure (\<lambda>(b, j). 8 - j)") auto

declare scan_byte.simps [simp del]

text \<open>The outer loop of \<^verbatim>\<open>Get\<close> over the bitmap bytes \<open>i < n\<close>.\<close>

function scan_lut :: "u8 list \<Rightarrow> nat \<Rightarrow> nat \<Rightarrow> error + (nat \<times> nat) option" where
  "scan_lut m n i =
     (if i < n
      then (case load m i of
              None \<Rightarrow> Inl Undefined
            | Some b \<Rightarrow>
                (case scan_byte b 0 of
                   Some j \<Rightarrow> Inr (Some (i, j))
                 | None \<Rightarrow> scan_lut m n (Suc i)))
      else Inr None)"
  by pat_completeness auto
termination
  by (relation "measure (\<lambda>(m, n, i). n - i)") auto

declare scan_lut.simps [simp del]

text \<open>Placement new: the bytes of \<open>T\<close> written at byte offset \<open>a\<close>.\<close>

definition construct :: "u8 list \<Rightarrow> nat \<Rightarrow> Type \<Rightarrow> u8 list option" where
  "construct m a T = memcpy m a T 0 (length T)"

definition Get :: "bool \<Rightarrow> Type \<Rightarrow> nat \<Rightarrow> Pool \<Rightarrow> (error + OffsetPtr) \<times> Pool" where
  "Get Reallocates T self p0 =
     (if capacity p0 < u64 (sizeP p0 + 1) \<and> \<not> Reallocates then (Inr OffsetPtr_default, p0)
      else
        case (if capacity p0 < u64 (sizeP p0 + 1) then Reallocate p0 else Inr p0) of
          Inl e \<Rightarrow> (Inl e, p0)
        | Inr p \<Rightarrow>
            (case scan_lut (poolBlock p) (capacity p div 8) 0 of
               Inl e \<Rightarrow> (Inl e, p)
             | Inr None \<Rightarrow> (Inl BadAlloc, p)
             | Inr (Some (i, j)) \<Rightarrow>
                 (case load (poolBlock p) i of
                    None \<Rightarrow> (Inl Undefined, p)
                  | Some b \<Rightarrow>
                      (case store (poolBlock p) i (b OR push_bit j 1) of
                         None \<Rightarrow> (Inl Undefined, p)
                       | Some m1 \<Rightarrow>
                           (let p1 = p\<lparr>poolBlock := m1, sizeP := u64 (sizeP p + 1)\<rparr>
                            in case construct m1 (pMem p + (i * 8 + j) * length T) T of
                                 None \<Rightarrow> (Inl Undefined, p1)
                               | Some m2 \<Rightarrow>
                                   (Inr (OffsetPtr_make self (i * 8 + j)),
                                    p1\<lparr>poolBlock := m2\<rparr>))))))"

text \<open>
  \<^verbatim>\<open>Pop\<close>. The handle is passed by reference, so the result carries it. The destructor
  of \<open>Type\<close> is taken to leave the bytes as they are.
\<close>

definition Pop :: "nat \<Rightarrow> nat \<Rightarrow> Pool \<Rightarrow> OffsetPtr \<Rightarrow> (error + unit) \<times> Pool \<times> OffsetPtr" where
  "Pop sz self p element =
     (case Resolve sz self p element of
        None \<Rightarrow> (Inl Undefined, p, element)
      | Some pElement \<Rightarrow>
          if pElement < pMem p \<or> pMem p + capacity p * sz < pElement
          then (Inl OutOfRange, p, element)
          else if sz = 0 then (Inl Undefined, p, element)
          else
            (let index = (pElement - pMem p) div sz
             in if index \<noteq> 0 \<and> capacity p = 0 then (Inl Undefined, p, element)
                else
                  (let pBox = (if index \<noteq> 0 then (index div 8) mod capacity p else 0);
                       boxOffset = (if index \<noteq> 0 then index mod 8 else 0);
                       flag = (push_bit boxOffset 1 :: u8)
                   in case load (poolBlock p) pBox of
                        None \<Rightarrow> (Inl Undefined, p, element)
                      | Some b \<Rightarrow>
                          if b AND flag \<noteq> 0
                          then (Inr (),
                                p\<lparr>poolBlock := (poolBlock p)[pBox := b XOR flag],
                                  sizeP := u64 (sizeP p + 2 ^ 64 - 1)\<rparr>,
                                ZeroOut element)
                          else (Inr (), p, element))))"

text \<open>
  A read and a write of the whole object through a handle (\<^verbatim>\<open>*h.Resolve()\<close>,
  \<^verbatim>\<open>h->field = v\<close>), \<open>sz\<close> being \<^verbatim>\<open>sizeof(Type)\<close>.
\<close>

definition read_object :: "nat \<Rightarrow> nat \<Rightarrow> Pool \<Rightarrow> OffsetPtr \<Rightarrow> u8 list option" where
  "read_object sz self p h =
     (case Resolve sz self p h of
        None \<Rightarrow> None
      | Some a \<Rightarrow> if a + sz \<le> length (poolBlock p) then Some (take sz (drop a (poolBlock p))) else None)"

definition write_object :: "nat \<Rightarrow> Pool \<Rightarrow> OffsetPtr \<Rightarrow> u8 list \<Rightarrow> Pool option" where
  "write_object self p h v =
     (case Resolve (length v) self p h of
        None \<Rightarrow> None
      | Some a \<Rightarrow>
          (case memcpy (poolBlock p) a v 0 (length v) of
             None \<Rightarrow> None
           | Some m \<Rightarrow> Some (p\<lparr>poolBlock := m\<rparr>)))"

text \<open>
  \<^verbatim>\<open>ForAllActive\<close> and \<^verbatim>\<open>ForAllFast\<close>. The visitor \<open>f\<close> receives the address in
  \<^verbatim>\<open>pPoolItem\<close> and acts on a state of the caller; \<open>Size\<close> is the template parameter
  of the allocator, \<open>sz\<close> is \<^verbatim>\<open>sizeof(Type)\<close>.
\<close>

function ForAllActive_loop ::
  "nat \<Rightarrow> nat \<Rightarrow> Pool \<Rightarrow> (nat \<Rightarrow> 's \<Rightarrow> 's) \<Rightarrow> nat \<Rightarrow> nat \<Rightarrow> 's \<Rightarrow> error + 's" where
  "ForAllActive_loop Size sz p f i pPoolItem s =
     (if i < capacity p
      then (if i \<noteq> 0 \<and> Size = 0 then Inl Undefined
            else
              (let pBox = (if i \<noteq> 0 then (i div 8) mod Size else 0);
                   boxOffset = (if i \<noteq> 0 then i mod 8 else 0);
                   flag = (push_bit boxOffset 1 :: u8)
               in case load (poolBlock p) pBox of
                    None \<Rightarrow> Inl Undefined
                  | Some b \<Rightarrow>
                      ForAllActive_loop Size sz p f (Suc i) (pPoolItem + sz)
                        (if b AND flag \<noteq> 0 then f pPoolItem s else s)))
      else Inr s)"
  by pat_completeness auto
termination
  by (relation "measure (\<lambda>(Size, sz, p, f, i, pPoolItem, s). capacity p - i)") auto

declare ForAllActive_loop.simps [simp del]

definition ForAllActive :: "nat \<Rightarrow> nat \<Rightarrow> Pool \<Rightarrow> (nat \<Rightarrow> 's \<Rightarrow> 's) \<Rightarrow> 's \<Rightarrow> error + 's" where
  "ForAllActive Size sz p f s = ForAllActive_loop Size sz p f 0 (pMem p) s"

function ForAllFast_loop ::
  "nat \<Rightarrow> Pool \<Rightarrow> (nat \<Rightarrow> 's \<Rightarrow> 's) \<Rightarrow> nat \<Rightarrow> nat \<Rightarrow> 's \<Rightarrow> 's" where
  "ForAllFast_loop sz p f i pPoolItem s =
     (if i < capacity p
      then ForAllFast_loop sz p f (Suc i) (pPoolItem + sz) (f pPoolItem s)
      else s)"
  by pat_completeness auto
termination
  by (relation "measure (\<lambda>(sz, p, f, i, pPoolItem, s). capacity p - i)") auto

declare ForAllFast_loop.simps [simp del]

definition ForAllFast :: "nat \<Rightarrow> Pool \<Rightarrow> (nat \<Rightarrow> 's \<Rightarrow> 's) \<Rightarrow> 's \<Rightarrow> 's" where
  "ForAllFast sz p f s = ForAllFast_loop sz p f 0 (pMem p) s"

definition ForAll ::
  "bool \<Rightarrow> nat \<Rightarrow> nat \<Rightarrow> Pool \<Rightarrow> (nat \<Rightarrow> 's \<Rightarrow> 's) \<Rightarrow> 's \<Rightarrow> error + 's" where
  "ForAll IgnoreInactive Size sz p f s =
     (if IgnoreInactive then ForAllActive Size sz p f s else Inr (ForAllFast sz p f s))"

text \<open>The visitor that records the addresses it is called with, in order.\<close>

definition record_visit :: "nat \<Rightarrow> nat list \<Rightarrow> nat list" where
  "record_visit a visited = visited @ [a]"

section \<open>GeneralPurposeAllocator\<close>

text \<open>
  \<^verbatim>\<open>m_Pools\<close> maps a class size to the state of its allocator; a handle's container
  is the class size of the pool it points to. \<^verbatim>\<open>Padding<n>\<close> is \<open>n\<close> bytes that
  value-initialisation zeroes.
\<close>

record GeneralPurposeAllocator =
  m_Pools :: "nat \<rightharpoonup> Pool"
  m_SubPoolSizes :: "nat list"

definition Padding :: "nat \<Rightarrow> Type" where
  "Padding n = replicate n 0"

definition AddPools :: "nat \<Rightarrow> nat \<Rightarrow> (nat \<rightharpoonup> Pool) \<Rightarrow> (nat \<rightharpoonup> Pool)" where
  "AddPools PoolSize Size m = m(Size \<mapsto> FixedTypeAllocator_init (Padding Size) PoolSize)"

definition GeneralPurposeAllocator_init :: "nat \<Rightarrow> nat list \<Rightarrow> GeneralPurposeAllocator" where
  "GeneralPurposeAllocator_init PoolSize SubPoolSize =
     \<lparr>m_Pools = fold (AddPools PoolSize) SubPoolSize Map.empty,
      m_SubPoolSizes = SubPoolSize\<rparr>"

text \<open>\<^verbatim>\<open>ResolvePool\<close>: the scan of \<^verbatim>\<open>m_SubPoolSizes\<close> from index 0.\<close>

fun ResolvePool :: "nat list \<Rightarrow> nat \<Rightarrow> error + nat" where
  "ResolvePool [] typeSize = Inl BadAlloc"
| "ResolvePool (c # cs) typeSize =
     (if typeSize \<le> c then Inr c else ResolvePool cs typeSize)"

text \<open>
  \<^verbatim>\<open>New<Type>\<close> and \<^verbatim>\<open>Delete<Type>\<close>, \<open>sizeofType\<close> being \<^verbatim>\<open>sizeof(Type)\<close>. Both
  use the pool through \<^verbatim>\<open>FixedTypeAllocator<Padding<sizeof(Type)>, ...>\<close>.
  \<^verbatim>\<open>m_Pools[pool]\<close> of a missing key is a null pointer.
\<close>

definition New ::
  "bool \<Rightarrow> nat \<Rightarrow> GeneralPurposeAllocator \<Rightarrow> (error + OffsetPtr) \<times> GeneralPurposeAllocator" where
  "New Reallocates sizeofType g =
     (case ResolvePool (m_SubPoolSizes g) sizeofType of
        Inl e \<Rightarrow> (Inl e, g)
      | Inr pool \<Rightarrow>
          (case m_Pools g pool of
             None \<Rightarrow> (Inl Undefined, g)
           | Some ftPool \<Rightarrow>
               (case Get Reallocates (Padding sizeofType) pool ftPool of
                  (Inl e, ftPool') \<Rightarrow> (Inl e, g\<lparr>m_Pools := (m_Pools g)(pool \<mapsto> ftPool')\<rparr>)
                | (Inr h, ftPool') \<Rightarrow>
                    (Inr (OffsetPtr_make pool (Internal h)),
                     g\<lparr>m_Pools := (m_Pools g)(pool \<mapsto> ftPool')\<rparr>))))"

text \<open>
  In \<^verbatim>\<open>Delete\<close> the handle \<^verbatim>\<open>sized\<close> that \<^verbatim>\<open>Pop\<close> resolves holds
  \<^verbatim>\<open>(PoolAllocator*)ftPool\<close>: a \<^verbatim>\<open>FixedTypeAllocator*\<close> reinterpreted as a pointer to
  the unrelated class \<^verbatim>\<open>PoolAllocator\<close>, through which \<^verbatim>\<open>Resolve\<close> makes the virtual call
  \<^verbatim>\<open>Internal()\<close>. \<open>poolFirst\<close> is the assumption on the object layout of the build under
  which that call reaches \<^verbatim>\<open>Pool::Internal\<close> of the allocator's pool: \<^verbatim>\<open>m_Pool\<close> lies at
  the address of the \<^verbatim>\<open>FixedTypeAllocator\<close> object. Without it the call is undefined.
  The language does not grant it: \<^verbatim>\<open>FixedTypeAllocator\<close> and \<^verbatim>\<open>Pool\<close> both derive
  from the empty class \<^verbatim>\<open>Allocator\<close>, and two base subobjects of one type do not share
  an address, so an implementation is free to place \<^verbatim>\<open>m_Pool\<close> behind the start of the
  object. \<^verbatim>\<open>New\<close> only stores the reinterpreted pointer in the handle it returns.
\<close>

definition Delete ::
  "bool \<Rightarrow> nat \<Rightarrow> GeneralPurposeAllocator \<Rightarrow> OffsetPtr \<Rightarrow>
     (error + unit) \<times> GeneralPurposeAllocator \<times> OffsetPtr" where
  "Delete poolFirst sizeofType g oPtr =
     (case ResolvePool (m_SubPoolSizes g) sizeofType of
        Inl e \<Rightarrow> (Inl e, g, oPtr)
      | Inr pool \<Rightarrow>
          (case m_Pools g pool of
             None \<Rightarrow> (Inl Undefined, g, oPtr)
           | Some ftPool \<Rightarrow>
               if \<not> poolFirst then (Inl Undefined, g, oPtr)
               else
                 (case Pop sizeofType pool ftPool (OffsetPtr_make pool (Internal oPtr)) of
                    (Inl e, ftPool', sized) \<Rightarrow>
                      (Inl e, g\<lparr>m_Pools := (m_Pools g)(pool \<mapsto> ftPool')\<rparr>, oPtr)
                  | (Inr u, ftPool', sized) \<Rightarrow>
                      (Inr (), g\<lparr>m_Pools := (m_Pools g)(pool \<mapsto> ftPool')\<rparr>, ZeroOut oPtr))))"

text \<open>
  A client loop that calls \<^verbatim>\<open>Get\<close> \<open>n\<close> times and keeps the pool, as
  \<^verbatim>\<open>TestFixedTypeAllocator\<close> does.
\<close>

fun Get_times :: "nat \<Rightarrow> bool \<Rightarrow> Type \<Rightarrow> nat \<Rightarrow> Pool \<Rightarrow> Pool" where
  "Get_times 0 Reallocates T self p = p"
| "Get_times (Suc n) Reallocates T self p =
     Get_times n Reallocates T self (snd (Get Reallocates T self p))"

text \<open>
  A read and a write of an object through a handle of the general-purpose allocator: the
  handle's container is the pool of one class.
\<close>

definition GPA_read :: "nat \<Rightarrow> GeneralPurposeAllocator \<Rightarrow> OffsetPtr \<Rightarrow> u8 list option" where
  "GPA_read sz g h =
     (case pContainer h of
        None \<Rightarrow> None
      | Some c \<Rightarrow> (case m_Pools g c of None \<Rightarrow> None | Some p \<Rightarrow> read_object sz c p h))"

definition GPA_write ::
  "GeneralPurposeAllocator \<Rightarrow> OffsetPtr \<Rightarrow> u8 list \<Rightarrow> GeneralPurposeAllocator option" where
  "GPA_write g h v =
     (case pContainer h of
        None \<Rightarrow> None
      | Some c \<Rightarrow>
          (case m_Pools g c of
             None \<Rightarrow> None
           | Some p \<Rightarrow>
               (case write_object c p h v of
                  None \<Rightarrow> None
                | Some p' \<Rightarrow> Some (g\<lparr>m_Pools := (m_Pools g)(c \<mapsto> p')\<rparr>))))"

text \<open>The part of \<^verbatim>\<open>Get\<close> after the growth check: the scan and the claim of a slot.\<close>

definition Get_scan :: "Type \<Rightarrow> nat \<Rightarrow> Pool \<Rightarrow> (error + OffsetPtr) \<times> Pool" where
  "Get_scan T self p =
     (case scan_lut (poolBlock p) (capacity p div 8) 0 of
        Inl e \<Rightarrow> (Inl e, p)
      | Inr None \<Rightarrow> (Inl BadAlloc, p)
      | Inr (Some (i, j)) \<Rightarrow>
          (case load (poolBlock p) i of
             None \<Rightarrow> (Inl Undefined, p)
           | Some b \<Rightarrow>
               (case store (poolBlock p) i (b OR push_bit j 1) of
                  None \<Rightarrow> (Inl Undefined, p)
                | Some m1 \<Rightarrow>
                    (let p1 = p\<lparr>poolBlock := m1, sizeP := u64 (sizeP p + 1)\<rparr>
                     in case construct m1 (pMem p + (i * 8 + j) * length T) T of
                          None \<Rightarrow> (Inl Undefined, p1)
                        | Some m2 \<Rightarrow>
                            (Inr (OffsetPtr_make self (i * 8 + j)),
                             p1\<lparr>poolBlock := m2\<rparr>)))))"

section \<open>The bitmap as a set of slots\<close>

text \<open>
  Bit \<open>k mod 8\<close> of byte \<open>k div 8\<close> of the block is the occupancy bit of slot \<open>k\<close>;
  the bitmap is the first \<open>capacity div 8\<close> bytes. \<open>popcount\<close> counts the set bits.
\<close>

definition lut_bit :: "u8 list \<Rightarrow> nat \<Rightarrow> bool" where
  "lut_bit m k = bit (m ! (k div 8)) (k mod 8)"

definition bitmap :: "Pool \<Rightarrow> u8 list" where
  "bitmap p = take (capacity p div 8) (poolBlock p)"

definition popcount8 :: "u8 \<Rightarrow> nat" where
  "popcount8 b = length (filter (bit b) [0..<8])"

definition popcount :: "u8 list \<Rightarrow> nat" where
  "popcount bs = sum_list (map popcount8 bs)"

text \<open>
  The layout that the constructor and \<^verbatim>\<open>Reallocate\<close> establish, for a capacity that is
  a multiple of 8 and a block that fits a 64-bit address space.
\<close>

definition pool_layout :: "Pool \<Rightarrow> bool" where
  "pool_layout p \<longleftrightarrow>
     capacity p mod 8 = 0 \<and> 0 < poolItemSize p \<and> pMem p = capacity p div 8
     \<and> length (poolBlock p) = capacity p div 8 + poolItemSize p * capacity p
     \<and> length (poolBlock p) < 2 ^ 64"

text \<open>The invariant of the specification: \<^verbatim>\<open>size\<close> is the popcount of the bitmap.\<close>

definition size_is_popcount :: "Pool \<Rightarrow> bool" where
  "size_is_popcount p \<longleftrightarrow> sizeP p = popcount (bitmap p)"

text \<open>
  The test of \<^verbatim>\<open>ForAllActive\<close> for slot \<open>i\<close>: the bitmap byte it reads is
  \<^verbatim>\<open>(i / 8) % Size\<close>. \<open>packed\<close>: the live slots are the first \<open>size\<close> ones.
\<close>

definition active :: "nat \<Rightarrow> Pool \<Rightarrow> nat \<Rightarrow> bool" where
  "active Size p i = bit (poolBlock p ! ((i div 8) mod Size)) (i mod 8)"

definition packed :: "Pool \<Rightarrow> bool" where
  "packed p \<longleftrightarrow>
     pool_layout p \<and> size_is_popcount p
     \<and> (\<forall>k < capacity p. lut_bit (poolBlock p) k = (k < sizeP p))"

section \<open>Basic facts\<close>

lemma flag_test: "(b AND push_bit k 1 \<noteq> 0) = bit (b :: u8) k"
  by (simp add: and_exp_eq_0_iff_not_bit)

lemma flag_test_exp: "(b AND 2 ^ k \<noteq> 0) = bit (b :: u8) k"
  by (simp add: and_exp_eq_0_iff_not_bit)

lemma flag_test0: "(b AND 1 \<noteq> 0) = bit (b :: u8) 0"
  using flag_test [of b 0] by simp

lemma flag_test_not: "(NOT b AND push_bit k 1 \<noteq> 0) = (k < 8 \<and> \<not> bit (b :: u8) k)"
  by (auto simp add: and_exp_eq_0_iff_not_bit bit_not_iff dest: bit_imp_le_length)

lemma u64_id: "n < 2 ^ 64 \<Longrightarrow> u64 n = n"
  by (simp add: u64_def)

lemma ZeroOut_default: "ZeroOut h = OffsetPtr_default"
  by (simp add: ZeroOut_def OffsetPtr_default_def)

lemma div8_less:
  assumes "i < c" "c mod 8 = 0"
  shows "i div 8 < c div (8::nat)"
proof -
  from assms(2) obtain k where k: "c = 8 * k" by (auto simp: mod_eq_0_iff_dvd)
  with assms(1) have "i < k * 8" by simp
  then have "i div 8 < k" by (simp add: div_less_iff_less_mult)
  with k show ?thesis by simp
qed

text \<open>What \<open>Pop\<close> does with a handle of this pool whose index is at most the capacity.\<close>

lemma Pop_in_range:
  assumes "pContainer h = Some self" "offset h \<le> capacity p" "0 < sz"
    "offset h \<noteq> 0 \<longrightarrow> offset h div 8 < capacity p"
  shows "Pop sz self p h =
     (case load (poolBlock p) (offset h div 8) of
        None \<Rightarrow> (Inl Undefined, p, h)
      | Some b \<Rightarrow>
          if bit b (offset h mod 8)
          then (Inr (),
                p\<lparr>poolBlock := (poolBlock p)[offset h div 8 := b XOR push_bit (offset h mod 8) 1],
                  sizeP := u64 (sizeP p + 2 ^ 64 - 1)\<rparr>,
                OffsetPtr_default)
          else (Inr (), p, h))"
proof (cases "offset h = 0")
  case True
  with assms show ?thesis
    by (simp add: Pop_def Resolve_def Pool_Internal_def flag_test0 ZeroOut_default Let_def
        split: option.splits)
next
  case False
  with assms have c: "capacity p \<noteq> 0" by auto
  from False assms have m: "(offset h div 8) mod capacity p = offset h div 8" by simp
  from False assms c m show ?thesis
    by (simp add: Pop_def Resolve_def Pool_Internal_def flag_test_exp ZeroOut_default Let_def
        split: option.splits)
qed

lemma Pop_out_of_range:
  assumes "pContainer h = Some self" "capacity p < offset h" "0 < sz"
  shows "Pop sz self p h = (Inl OutOfRange, p, h)"
  using assms by (simp add: Pop_def Resolve_def Pool_Internal_def)

lemma Pop_clear_bit:
  assumes "pContainer h = Some self" "offset h < capacity p" "0 < sz"
    "capacity p div 8 \<le> length (poolBlock p)" "capacity p mod 8 = 0"
    "\<not> bit (poolBlock p ! (offset h div 8)) (offset h mod 8)"
  shows "Pop sz self p h = (Inr (), p, h)"
proof -
  from assms(2,5) have d: "offset h div 8 < capacity p div 8" by (rule div8_less)
  with assms(4) have l: "load (poolBlock p) (offset h div 8) = Some (poolBlock p ! (offset h div 8))"
    by (simp add: load_def)
  from d have "offset h div 8 < capacity p" by simp
  with assms(1,2,3) have "Pop sz self p h =
     (case load (poolBlock p) (offset h div 8) of
        None \<Rightarrow> (Inl Undefined, p, h)
      | Some b \<Rightarrow>
          if bit b (offset h mod 8)
          then (Inr (),
                p\<lparr>poolBlock := (poolBlock p)[offset h div 8 := b XOR push_bit (offset h mod 8) 1],
                  sizeP := u64 (sizeP p + 2 ^ 64 - 1)\<rparr>,
                OffsetPtr_default)
          else (Inr (), p, h))"
    by (intro Pop_in_range) simp_all
  with l assms(6) show ?thesis by simp
qed

subsection \<open>The scan of the bitmap\<close>

lemma flag_test_not_exp: "(NOT b AND 2 ^ k \<noteq> 0) = (k < 8 \<and> \<not> bit (b :: u8) k)"
  using flag_test_not [of b k] by simp

lemma scan_byte_Some:
  "scan_byte b j0 = Some j \<Longrightarrow>
     j0 \<le> j \<and> j < 8 \<and> \<not> bit b j \<and> (\<forall>k. j0 \<le> k \<and> k < j \<longrightarrow> bit b k)"
proof (induction b j0 rule: scan_byte.induct)
  case (1 b j0)
  show ?case
  proof (cases "j0 < 8")
    case False
    with "1.prems" show ?thesis by (simp add: scan_byte.simps)
  next
    case True
    show ?thesis
    proof (cases "\<not> bit b j0")
      case True
      with \<open>j0 < 8\<close> "1.prems" have "j = j0"
        by (simp add: scan_byte.simps [of b j0] flag_test_not_exp)
      with True \<open>j0 < 8\<close> show ?thesis by auto
    next
      case False
      with \<open>j0 < 8\<close> "1.prems" have r: "scan_byte b (Suc j0) = Some j"
        by (simp add: scan_byte.simps [of b j0] flag_test_not_exp)
      from False \<open>j0 < 8\<close> have "\<not> (NOT b AND push_bit j0 1 \<noteq> 0)"
        by (simp add: flag_test_not_exp)
      from "1.IH" [OF \<open>j0 < 8\<close> this r]
      have ih: "Suc j0 \<le> j \<and> j < 8 \<and> \<not> bit b j \<and> (\<forall>k. Suc j0 \<le> k \<and> k < j \<longrightarrow> bit b k)" .
      have "\<forall>k. j0 \<le> k \<and> k < j \<longrightarrow> bit b k"
      proof (intro allI impI)
        fix k assume "j0 \<le> k \<and> k < j"
        then have "k = j0 \<or> (Suc j0 \<le> k \<and> k < j)" by auto
        with False ih show "bit b k" by auto
      qed
      with ih show ?thesis by simp
    qed
  qed
qed

lemma scan_byte_None:
  "scan_byte b j0 = None \<Longrightarrow> (\<forall>k. j0 \<le> k \<and> k < 8 \<longrightarrow> bit b k)"
proof (induction b j0 rule: scan_byte.induct)
  case (1 b j0)
  show ?case
  proof (cases "j0 < 8")
    case False
    then show ?thesis by auto
  next
    case True
    from True "1.prems" have s: "bit b j0"
      by (simp add: scan_byte.simps [of b j0] flag_test_not_exp split: if_splits)
    with True "1.prems" have r: "scan_byte b (Suc j0) = None"
      by (simp add: scan_byte.simps [of b j0] flag_test_not_exp)
    from s True have "\<not> (NOT b AND push_bit j0 1 \<noteq> 0)"
      by (simp add: flag_test_not_exp)
    from "1.IH" [OF True this r] have ih: "\<forall>k. Suc j0 \<le> k \<and> k < 8 \<longrightarrow> bit b k" .
    show ?thesis
    proof (intro allI impI)
      fix k assume "j0 \<le> k \<and> k < 8"
      then have "k = j0 \<or> (Suc j0 \<le> k \<and> k < 8)" by auto
      with s ih show "bit b k" by auto
    qed
  qed
qed

lemma scan_lut_Some:
  "scan_lut m n i0 = Inr (Some (i, j)) \<Longrightarrow>
     i0 \<le> i \<and> i < n \<and> i < length m \<and> j < 8 \<and> \<not> bit (m ! i) j
     \<and> (\<forall>k < j. bit (m ! i) k)
     \<and> (\<forall>i'. i0 \<le> i' \<and> i' < i \<longrightarrow> (\<forall>k < 8. bit (m ! i') k))"
proof (induction m n i0 rule: scan_lut.induct)
  case (1 m n i0)
  from "1.prems" have lt: "i0 < n"
    by (simp add: scan_lut.simps [of m n i0] split: if_splits)
  with "1.prems" have len: "i0 < length m"
    by (simp add: scan_lut.simps [of m n i0] load_def split: if_splits)
  then have ld: "load m i0 = Some (m ! i0)" by (simp add: load_def)
  show ?case
  proof (cases "scan_byte (m ! i0) 0")
    case (Some j')
    with "1.prems" lt ld have "i = i0" "j = j'"
      by (simp_all add: scan_lut.simps [of m n i0])
    with Some scan_byte_Some [of "m ! i0" 0 j'] lt len show ?thesis by auto
  next
    case None
    with "1.prems" lt ld have r: "scan_lut m n (Suc i0) = Inr (Some (i, j))"
      by (simp add: scan_lut.simps [of m n i0])
    from "1.IH" [OF lt ld None r]
    have ih: "Suc i0 \<le> i \<and> i < n \<and> i < length m \<and> j < 8 \<and> \<not> bit (m ! i) j
     \<and> (\<forall>k < j. bit (m ! i) k)
     \<and> (\<forall>i'. Suc i0 \<le> i' \<and> i' < i \<longrightarrow> (\<forall>k < 8. bit (m ! i') k))" .
    from scan_byte_None [OF None] have full: "\<forall>k < 8. bit (m ! i0) k" by simp
    have "\<forall>i'. i0 \<le> i' \<and> i' < i \<longrightarrow> (\<forall>k < 8. bit (m ! i') k)"
    proof (rule allI, rule impI)
      fix i' assume "i0 \<le> i' \<and> i' < i"
      then have "i' = i0 \<or> (Suc i0 \<le> i' \<and> i' < i)" by auto
      with full ih show "\<forall>k < 8. bit (m ! i') k" by auto
    qed
    with ih show ?thesis by simp
  qed
qed

lemma scan_lut_None:
  "scan_lut m n i0 = Inr None \<Longrightarrow>
     (\<forall>i'. i0 \<le> i' \<and> i' < n \<longrightarrow> (\<forall>k < 8. bit (m ! i') k))"
proof (induction m n i0 rule: scan_lut.induct)
  case (1 m n i0)
  show ?case
  proof (cases "i0 < n")
    case False
    then show ?thesis by auto
  next
    case lt: True
    with "1.prems" have len: "i0 < length m"
      by (simp add: scan_lut.simps [of m n i0] load_def split: if_splits)
    then have ld: "load m i0 = Some (m ! i0)" by (simp add: load_def)
    from "1.prems" lt ld have None: "scan_byte (m ! i0) 0 = None"
      by (simp add: scan_lut.simps [of m n i0] split: option.splits)
    with "1.prems" lt ld have r: "scan_lut m n (Suc i0) = Inr None"
      by (simp add: scan_lut.simps [of m n i0])
    from "1.IH" [OF lt ld None r]
    have ih: "\<forall>i'. Suc i0 \<le> i' \<and> i' < n \<longrightarrow> (\<forall>k < 8. bit (m ! i') k)" .
    from scan_byte_None [OF None] have full: "\<forall>k < 8. bit (m ! i0) k" by simp
    show ?thesis
    proof (rule allI, rule impI)
      fix i' assume "i0 \<le> i' \<and> i' < n"
      then have "i' = i0 \<or> (Suc i0 \<le> i' \<and> i' < n)" by auto
      with full ih show "\<forall>k < 8. bit (m ! i') k" by auto
    qed
  qed
qed

lemma scan_lut_no_fault:
  "n \<le> length m \<Longrightarrow> scan_lut m n i0 \<noteq> Inl e"
proof (induction m n i0 rule: scan_lut.induct)
  case (1 m n i0)
  show ?case
  proof (cases "i0 < n")
    case False
    then show ?thesis by (simp add: scan_lut.simps [of m n i0])
  next
    case lt: True
    with "1.prems" have ld: "load m i0 = Some (m ! i0)" by (simp add: load_def)
    show ?thesis
    proof (cases "scan_byte (m ! i0) 0")
      case None
      from "1.IH" [OF lt ld None "1.prems"] lt ld None show ?thesis
        by (simp add: scan_lut.simps [of m n i0])
    next
      case (Some j)
      with lt ld show ?thesis by (simp add: scan_lut.simps [of m n i0])
    qed
  qed
qed

text \<open>First fit, in terms of slot indices.\<close>

lemma scan_lut_first_fit:
  assumes "scan_lut m n 0 = Inr (Some (i, j))"
  shows "i * 8 + j < n * 8 \<and> \<not> lut_bit m (i * 8 + j) \<and> (\<forall>s < i * 8 + j. lut_bit m s)"
proof -
  from scan_lut_Some [OF assms]
  have f: "i < n" "j < 8" "\<not> bit (m ! i) j" "\<forall>k < j. bit (m ! i) k"
    "\<forall>i'. i' < i \<longrightarrow> (\<forall>k < 8. bit (m ! i') k)" by auto
  from f(2) have dm: "(i * 8 + j) div 8 = i" "(i * 8 + j) mod 8 = j" by simp_all
  have "\<forall>s < i * 8 + j. lut_bit m s"
  proof (intro allI impI)
    fix s assume s: "s < i * 8 + j"
    show "lut_bit m s"
    proof (cases "s div 8 < i")
      case True
      with f(5) have "bit (m ! (s div 8)) (s mod 8)" by simp
      then show ?thesis by (simp add: lut_bit_def)
    next
      case False
      have "s div 8 * 8 + s mod 8 = s" "s mod 8 < 8" by simp_all
      with False s f(2) have "s div 8 = i" "s mod 8 < j" by arith+
      with f(4) show ?thesis by (simp add: lut_bit_def)
    qed
  qed
  moreover from f(1,2) have "i * 8 + j < n * 8" by simp
  ultimately show ?thesis using f(3) dm by (simp add: lut_bit_def)
qed

lemma scan_lut_full:
  assumes "scan_lut m n 0 = Inr None"
  shows "\<forall>s < n * 8. lut_bit m s"
proof (intro allI impI)
  fix s assume "s < n * 8"
  then have "s div 8 < n" by (simp add: div_less_iff_less_mult)
  with scan_lut_None [OF assms] show "lut_bit m s" by (simp add: lut_bit_def)
qed

subsection \<open>Copies and reallocation\<close>

lemma memcpy_Some:
  assumes "d + n \<le> length dst" "s + n \<le> length src"
  shows "memcpy dst d src s n = Some (take d dst @ take n (drop s src) @ drop (d + n) dst)"
  using assms by (simp add: memcpy_def)

lemma memcpy_length:
  assumes "memcpy dst d src s n = Some r"
  shows "length r = length dst"
  using assms by (auto simp: memcpy_def split: if_splits)

lemma memcpy_nth:
  assumes "memcpy dst d src s n = Some r" "k < length dst"
  shows "r ! k = (if d \<le> k \<and> k < d + n then src ! (s + (k - d)) else dst ! k)"
proof -
  from assms(1) have b: "d + n \<le> length dst" "s + n \<le> length src"
    and r: "r = take d dst @ take n (drop s src) @ drop (d + n) dst"
    by (auto simp: memcpy_def split: if_splits)
  show ?thesis
  proof (cases "k < d")
    case True
    with b r show ?thesis by (simp add: nth_append)
  next
    case False
    show ?thesis
    proof (cases "k < d + n")
      case True
      with False have "k - d < n" by arith
      with True False b r show ?thesis by (simp add: nth_append)
    next
      case False
      then have "\<not> k - d < n" "d + n + (k - d - n) = k" by arith+
      with False \<open>\<not> k < d\<close> b r assms(2) show ?thesis
        by (simp add: nth_append)
    qed
  qed
qed

lemma Reallocate_layout:
  assumes "pool_layout p" "2 * length (poolBlock p) < 2 ^ 64"
  shows "\<exists>m. Reallocate p = Inr (p\<lparr>poolBlock := m, pMem := 2 * capacity p div 8,
                                      capacity := 2 * capacity p\<rparr>)
           \<and> length m = 2 * length (poolBlock p)
           \<and> (\<forall>k < capacity p div 8. m ! k = poolBlock p ! k)
           \<and> (\<forall>k. capacity p div 8 \<le> k \<and> k < 2 * capacity p div 8 \<longrightarrow> m ! k = 0)
           \<and> (\<forall>k < poolItemSize p * capacity p.
                 m ! (2 * capacity p div 8 + k) = poolBlock p ! (pMem p + k))
           \<and> (\<forall>k. poolItemSize p * capacity p \<le> k \<and> k < poolItemSize p * (2 * capacity p)
                 \<longrightarrow> m ! (2 * capacity p div 8 + k) = 0)"
proof -
  define c8 where "c8 = capacity p div 8"
  define n where "n = poolItemSize p * capacity p"
  from assms(1) have cap: "capacity p = 8 * c8" and pm: "pMem p = c8"
    and len: "length (poolBlock p) = c8 + n" and item: "0 < poolItemSize p"
    by (auto simp: pool_layout_def c8_def n_def)
  from item have "capacity p \<le> n" by (simp add: n_def)
  with len assms(2) have small: "capacity p * 2 < 2 ^ 64" "2 * n < 2 ^ 64" "2 * c8 + 2 * n < 2 ^ 64"
    by simp_all
  have c2: "u64 (capacity p * 2) = 2 * capacity p" using small(1) by (simp add: u64_id mult.commute)
  have d2: "2 * capacity p div 8 = 2 * c8" using cap by simp
  have n2: "poolItemSize p * (2 * capacity p) = 2 * n" by (simp add: n_def)
  have sz: "u64 (2 * c8 + u64 (2 * n)) = 2 * c8 + 2 * n" using small by (simp add: u64_id)
  have un: "u64 n = n" using small(2) by (simp add: u64_id)
  define b0 where "b0 = Alloc (2 * c8 + 2 * n)"
  have l0: "length b0 = 2 * c8 + 2 * n" by (simp add: b0_def Alloc_def)
  have z0: "\<forall>k < 2 * c8 + 2 * n. b0 ! k = 0" by (simp add: b0_def Alloc_def)
  obtain b1 where b1: "memcpy b0 0 (poolBlock p) 0 c8 = Some b1"
    using l0 len by (simp add: memcpy_def)
  have l1: "length b1 = 2 * c8 + 2 * n" using memcpy_length [OF b1] l0 by simp
  obtain b2 where b2: "memcpy b1 (2 * c8) (poolBlock p) c8 n = Some b2"
    using l1 len by (simp add: memcpy_def)
  have l2: "length b2 = 2 * c8 + 2 * n" using memcpy_length [OF b2] l1 by simp
  have nth1: "\<And>k. k < 2 * c8 + 2 * n \<Longrightarrow> b1 ! k = (if k < c8 then poolBlock p ! k else 0)"
    using memcpy_nth [OF b1] l0 z0 by simp
  have nth2: "\<And>k. k < 2 * c8 + 2 * n \<Longrightarrow>
      b2 ! k = (if 2 * c8 \<le> k \<and> k < 2 * c8 + n then poolBlock p ! (c8 + (k - 2 * c8))
                else if k < c8 then poolBlock p ! k else 0)"
    using memcpy_nth [OF b2] l1 nth1 by simp
  have R: "Reallocate p = Inr (p\<lparr>poolBlock := b2, pMem := 2 * capacity p div 8,
                                      capacity := 2 * capacity p\<rparr>)"
    using b1 b2 by (simp add: Reallocate_def Let_def c2 d2 n2 sz un pm b0_def
        c8_def [symmetric] n_def [symmetric])
  have A: "\<forall>k < capacity p div 8. b2 ! k = poolBlock p ! k"
    using nth2 by (simp add: c8_def [symmetric])
  have B: "\<forall>k. capacity p div 8 \<le> k \<and> k < 2 * capacity p div 8 \<longrightarrow> b2 ! k = 0"
    using nth2 by (simp add: c8_def [symmetric] d2)
  have C: "\<forall>k < poolItemSize p * capacity p.
                 b2 ! (2 * capacity p div 8 + k) = poolBlock p ! (pMem p + k)"
    using nth2 by (simp add: n_def [symmetric] d2 pm)
  have D: "\<forall>k. poolItemSize p * capacity p \<le> k \<and> k < poolItemSize p * (2 * capacity p)
                 \<longrightarrow> b2 ! (2 * capacity p div 8 + k) = 0"
    using nth2 by (simp add: n_def [symmetric] d2 n2)
  have L: "length b2 = 2 * length (poolBlock p)" using l2 len by simp
  from R L A B C D show ?thesis by blast
qed

subsection \<open>Bits and popcount\<close>

lemma bit_set_flag:
  "bit ((b :: u8) OR push_bit j 1) k = (bit b k \<or> (k = j \<and> j < 8))"
  by (auto simp add: bit_or_iff bit_exp_iff)

lemma bit_flip_flag:
  "bit ((b :: u8) XOR push_bit j 1) k = (bit b k \<noteq> (k = j \<and> j < 8))"
  by (auto simp add: bit_xor_iff bit_exp_iff)

lemma slot_index_eq:
  assumes "j < 8"
  shows "(k = i * 8 + j) = (k div 8 = i \<and> k mod 8 = (j :: nat))"
proof
  assume "k = i * 8 + j"
  with assms show "k div 8 = i \<and> k mod 8 = j" by simp
next
  assume a: "k div 8 = i \<and> k mod 8 = j"
  have "k div 8 * 8 + k mod 8 = k" by simp
  with a show "k = i * 8 + j" by simp
qed

lemma lut_bit_set:
  assumes "i < length m" "j < 8"
  shows "lut_bit (m[i := m ! i OR push_bit j 1]) k = (k = i * 8 + j \<or> lut_bit m k)"
proof (cases "k div 8 = i")
  case True
  with assms show ?thesis
    by (auto simp add: lut_bit_def bit_set_flag slot_index_eq [OF assms(2)] simp del: push_bit_of_1)
next
  case False
  then show ?thesis
    by (auto simp add: lut_bit_def slot_index_eq [OF assms(2)])
qed

lemma lut_bit_flip:
  assumes "i < length m" "j < 8"
  shows "lut_bit (m[i := m ! i XOR push_bit j 1]) k
         = (if k = i * 8 + j then \<not> lut_bit m k else lut_bit m k)"
proof (cases "k div 8 = i")
  case True
  with assms show ?thesis
    by (auto simp add: lut_bit_def bit_flip_flag slot_index_eq [OF assms(2)] simp del: push_bit_of_1)
next
  case False
  then show ?thesis
    by (auto simp add: lut_bit_def slot_index_eq [OF assms(2)])
qed

lemma popcount8_card: "popcount8 b = card {k. k < 8 \<and> bit b k}"
proof -
  have "distinct (filter (bit b) [0..<8])" by simp
  then have "length (filter (bit b) [0..<8]) = card (set (filter (bit b) [0..<8]))"
    by (rule distinct_card [symmetric])
  moreover have "set (filter (bit b) [0..<8]) = {k. k < 8 \<and> bit b k}" by auto
  ultimately show ?thesis by (simp add: popcount8_def)
qed

lemma popcount8_le: "popcount8 b \<le> 8"
proof -
  have "length (filter (bit b) [0..<8]) \<le> length [0..<(8::nat)]" by (rule length_filter_le)
  then show ?thesis by (simp add: popcount8_def)
qed

lemma popcount8_lt:
  assumes "j < 8" "\<not> bit b j"
  shows "popcount8 b < 8"
proof -
  from assms(1) have "j \<in> set [0..<8]" by simp
  from length_filter_less [of j "[0..<8]" "bit b", OF this assms(2)]
  show ?thesis by (simp add: popcount8_def)
qed

lemma popcount8_set:
  assumes "j < 8" "\<not> bit b j"
  shows "popcount8 (b OR push_bit j 1) = popcount8 b + 1"
proof -
  have "{k. k < 8 \<and> bit (b OR push_bit j 1) k} = insert j {k. k < 8 \<and> bit b k}"
    using assms(1) by (auto simp add: bit_set_flag simp del: push_bit_of_1)
  moreover have "finite {k. k < 8 \<and> bit b k}" by simp
  moreover have "j \<notin> {k. k < 8 \<and> bit b k}" using assms(2) by simp
  ultimately show ?thesis by (simp add: popcount8_card del: push_bit_of_1)
qed

lemma popcount8_flip:
  assumes "bit (b :: u8) j"
  shows "popcount8 (b XOR push_bit j 1) + 1 = popcount8 b"
proof -
  from assms have j: "j < 8" by (auto dest: bit_imp_le_length)
  have e: "{k. k < 8 \<and> bit (b XOR push_bit j 1) k} = {k. k < 8 \<and> bit b k} - {j}"
    using j assms by (auto simp add: bit_flip_flag simp del: push_bit_of_1)
  have f: "finite {k. k < 8 \<and> bit b k}" by simp
  have m: "j \<in> {k. k < 8 \<and> bit b k}" using assms j by simp
  from f m have pos: "0 < card {k. k < 8 \<and> bit b k}" by (auto simp: card_gt_0_iff)
  from m have "card ({k. k < 8 \<and> bit b k} - {j}) = card {k. k < 8 \<and> bit b k} - 1"
    by (rule card_Diff_singleton)
  with pos have "card ({k. k < 8 \<and> bit b k} - {j}) + 1 = card {k. k < 8 \<and> bit b k}" by arith
  with e show ?thesis by (simp only: popcount8_card)
qed

lemma popcount_le: "popcount bs \<le> 8 * length bs"
proof (induction bs)
  case Nil
  then show ?case by (simp add: popcount_def)
next
  case (Cons b bs)
  with popcount8_le [of b] show ?case by (simp add: popcount_def)
qed

lemma popcount_lt:
  assumes "i < length bs" "j < 8" "\<not> bit (bs ! i) j"
  shows "popcount bs < 8 * length bs"
  using assms
proof (induction bs arbitrary: i)
  case Nil
  then show ?case by simp
next
  case (Cons b bs)
  show ?case
  proof (cases i)
    case 0
    with Cons.prems have "popcount8 b < 8" by (auto intro: popcount8_lt)
    with popcount_le [of bs] show ?thesis by (simp add: popcount_def)
  next
    case (Suc i')
    with Cons.prems have "popcount bs < 8 * length bs" by (auto intro: Cons.IH)
    with popcount8_le [of b] show ?thesis by (simp add: popcount_def)
  qed
qed

lemma popcount_update:
  assumes "i < length bs"
  shows "popcount (bs[i := b]) + popcount8 (bs ! i) = popcount bs + popcount8 b"
  using assms
proof (induction bs arbitrary: i)
  case Nil
  then show ?case by simp
next
  case (Cons a bs)
  show ?case
  proof (cases i)
    case 0
    then show ?thesis by (simp add: popcount_def)
  next
    case (Suc i')
    with Cons.prems have "popcount (bs[i' := b]) + popcount8 (bs ! i') = popcount bs + popcount8 b"
      by (auto intro: Cons.IH)
    with Suc show ?thesis by (simp add: popcount_def)
  qed
qed

subsection \<open>What Get does\<close>

lemma Get_eq:
  "Get Reallocates T self p0 =
     (if capacity p0 < u64 (sizeP p0 + 1)
      then (if Reallocates
            then (case Reallocate p0 of Inl e \<Rightarrow> (Inl e, p0) | Inr p \<Rightarrow> Get_scan T self p)
            else (Inr OffsetPtr_default, p0))
      else Get_scan T self p0)"
  by (cases "Reallocate p0") (simp_all add: Get_def Get_scan_def)

lemma div8_mult8:
  assumes "c mod 8 = 0"
  shows "c div 8 * 8 = (c :: nat)"
  using div_mult_mod_eq [of c 8] assms by simp

lemma Get_scan_claims:
  assumes lay: "pool_layout p" and T: "length T \<le> poolItemSize p"
    and sc: "scan_lut (poolBlock p) (capacity p div 8) 0 = Inr (Some (i, j))"
  shows "\<exists>m. Get_scan T self p
               = (Inr (OffsetPtr_make self (i * 8 + j)),
                  p\<lparr>poolBlock := m, sizeP := u64 (sizeP p + 1)\<rparr>)
           \<and> length m = length (poolBlock p)
           \<and> (\<forall>k < length m.
                 m ! k = (if pMem p + (i * 8 + j) * length T \<le> k
                             \<and> k < pMem p + (i * 8 + j) * length T + length T
                          then T ! (k - (pMem p + (i * 8 + j) * length T))
                          else (poolBlock p)[i := poolBlock p ! i OR push_bit j 1] ! k))"
proof -
  define a where "a = pMem p + (i * 8 + j) * length T"
  define m1 where "m1 = (poolBlock p)[i := poolBlock p ! i OR push_bit j 1]"
  from scan_lut_Some [OF sc] have i: "i < capacity p div 8" "i < length (poolBlock p)" "j < 8"
    by auto
  from i(1,3) have "i * 8 + j + 1 \<le> capacity p div 8 * 8" by simp
  also from lay have "capacity p div 8 * 8 = capacity p"
    by (simp add: pool_layout_def div8_mult8)
  finally have s: "i * 8 + j + 1 \<le> capacity p" .
  then have "(i * 8 + j + 1) * length T \<le> capacity p * length T" by (rule mult_le_mono1)
  also from T have "capacity p * length T \<le> capacity p * poolItemSize p"
    by (rule mult_le_mono2)
  finally have "(i * 8 + j) * length T + length T \<le> poolItemSize p * capacity p"
    by (simp add: mult.commute)
  with lay have fit: "a + length T \<le> length (poolBlock p)"
    by (simp add: a_def pool_layout_def)
  have ld: "load (poolBlock p) i = Some (poolBlock p ! i)" using i(2) by (simp add: load_def)
  have st: "store (poolBlock p) i (poolBlock p ! i OR push_bit j 1) = Some m1"
    using i(2) by (simp add: store_def m1_def)
  have l1: "length m1 = length (poolBlock p)" by (simp add: m1_def)
  obtain m2 where c: "construct m1 a T = Some m2"
    using fit l1 by (simp add: construct_def memcpy_def)
  then have mc: "memcpy m1 a T 0 (length T) = Some m2" by (simp add: construct_def)
  have l2: "length m2 = length (poolBlock p)" using memcpy_length [OF mc] l1 by simp
  have nth: "\<forall>k < length m2. m2 ! k = (if a \<le> k \<and> k < a + length T then T ! (k - a) else m1 ! k)"
    using memcpy_nth [OF mc] l1 l2 by simp
  have "Get_scan T self p
               = (Inr (OffsetPtr_make self (i * 8 + j)),
                  p\<lparr>poolBlock := m2, sizeP := u64 (sizeP p + 1)\<rparr>)"
    using sc ld st c by (simp add: Get_scan_def Let_def a_def [symmetric] del: push_bit_of_1)
  with l2 nth show ?thesis unfolding a_def m1_def by blast
qed

lemma layout_facts:
  assumes "pool_layout p"
  shows "capacity p div 8 * 8 = capacity p" "capacity p \<le> poolItemSize p * capacity p"
    "capacity p div 8 \<le> length (poolBlock p)" "capacity p < 2 ^ 64"
    "length (bitmap p) = capacity p div 8" "pMem p = capacity p div 8"
proof -
  from assms show a: "capacity p div 8 * 8 = capacity p"
    by (simp add: pool_layout_def div8_mult8)
  from assms have "0 < poolItemSize p" by (simp add: pool_layout_def)
  then show b: "capacity p \<le> poolItemSize p * capacity p" by simp
  from assms show c: "capacity p div 8 \<le> length (poolBlock p)" by (simp add: pool_layout_def)
  from assms have "length (poolBlock p) = capacity p div 8 + poolItemSize p * capacity p"
    "length (poolBlock p) < 2 ^ 64" by (simp_all add: pool_layout_def)
  with b show "capacity p < 2 ^ 64" by arith
  from c show "length (bitmap p) = capacity p div 8" by (simp add: bitmap_def)
  from assms show "pMem p = capacity p div 8" by (simp add: pool_layout_def)
qed

lemma slot_div8:
  assumes "pool_layout p" "k < capacity p"
  shows "k div 8 < capacity p div 8"
  using assms by (intro div8_less) (simp_all add: pool_layout_def)

lemma bitmap_nth:
  assumes "k < capacity p div 8"
  shows "bitmap p ! k = poolBlock p ! k"
  using assms by (simp add: bitmap_def)

lemma lut_bit_bitmap:
  assumes "pool_layout p" "k < capacity p"
  shows "lut_bit (bitmap p) k = lut_bit (poolBlock p) k"
  using slot_div8 [OF assms] by (simp add: lut_bit_def bitmap_nth)

lemma size_lt_capacity:
  assumes "pool_layout p" "size_is_popcount p" "k < capacity p" "\<not> lut_bit (poolBlock p) k"
  shows "sizeP p < capacity p"
proof -
  from slot_div8 [OF assms(1,3)] have i: "k div 8 < length (bitmap p)"
    by (simp add: layout_facts(5) [OF assms(1)])
  have j: "k mod 8 < 8" by simp
  from assms(4) i have "\<not> bit (bitmap p ! (k div 8)) (k mod 8)"
    by (simp add: lut_bit_def bitmap_def)
  from popcount_lt [OF i j this] have "popcount (bitmap p) < 8 * (capacity p div 8)"
    by (simp add: layout_facts(5) [OF assms(1)])
  with layout_facts(1) [OF assms(1)] assms(2) show ?thesis
    by (simp add: size_is_popcount_def mult.commute)
qed

lemma scan_finds_first_free:
  assumes "pool_layout p" "k < capacity p" "\<not> lut_bit (poolBlock p) k"
  shows "\<exists>i j. scan_lut (poolBlock p) (capacity p div 8) 0 = Inr (Some (i, j))
             \<and> i * 8 + j \<le> k \<and> \<not> lut_bit (poolBlock p) (i * 8 + j)
             \<and> (\<forall>s < i * 8 + j. lut_bit (poolBlock p) s)"
proof (cases "scan_lut (poolBlock p) (capacity p div 8) 0")
  case (Inl e)
  with scan_lut_no_fault [OF layout_facts(3) [OF assms(1)], of 0 e] show ?thesis by simp
next
  case (Inr r)
  show ?thesis
  proof (cases r)
    case None
    with Inr have "\<forall>s < capacity p div 8 * 8. lut_bit (poolBlock p) s"
      by (intro scan_lut_full) simp
    with assms(2,3) layout_facts(1) [OF assms(1)] show ?thesis by simp
  next
    case (Some ij)
    obtain i j where ij: "ij = (i, j)" by (cases ij)
    with Some Inr have sc: "scan_lut (poolBlock p) (capacity p div 8) 0 = Inr (Some (i, j))"
      by simp
    from scan_lut_first_fit [OF sc]
    have f: "\<not> lut_bit (poolBlock p) (i * 8 + j)" "\<forall>s < i * 8 + j. lut_bit (poolBlock p) s"
      by simp_all
    from f(2) assms(3) have "i * 8 + j \<le> k" by (meson not_le_imp_less)
    with sc f show ?thesis by blast
  qed
qed

text \<open>The bytes of the object in slot \<open>s\<close>, for elements of \<open>sz\<close> bytes.\<close>

lemma read_object_bytes:
  assumes "pMem p + s * sz + sz \<le> length (poolBlock p)"
  shows "read_object sz self p (OffsetPtr_make self s)
         = Some (take sz (drop (pMem p + s * sz) (poolBlock p)))"
  using assms
  by (simp add: read_object_def Resolve_def Pool_Internal_def OffsetPtr_make_def)

lemma slot_fits:
  assumes "pool_layout p" "s < capacity p"
  shows "pMem p + s * poolItemSize p + poolItemSize p \<le> length (poolBlock p)"
proof -
  from assms(2) have "s + 1 \<le> capacity p" by simp
  then have "(s + 1) * poolItemSize p \<le> capacity p * poolItemSize p" by (rule mult_le_mono1)
  with assms(1) show ?thesis by (simp add: pool_layout_def mult.commute)
qed

lemma slots_disjoint:
  assumes "s' \<noteq> (s :: nat)" "k < sz"
  shows "\<not> (a + s * sz \<le> a + s' * sz + k \<and> a + s' * sz + k < a + s * sz + sz)"
proof (cases "s' < s")
  case True
  then have "s' + 1 \<le> s" by simp
  then have "(s' + 1) * sz \<le> s * sz" by (rule mult_le_mono1)
  with assms(2) show ?thesis by simp
next
  case False
  with assms(1) have "s + 1 \<le> s'" by simp
  then have "(s + 1) * sz \<le> s' * sz" by (rule mult_le_mono1)
  then show ?thesis by simp
qed

lemma take_drop_eqI:
  assumes "a + n \<le> length xs" "a + n \<le> length ys" "\<And>k. k < n \<Longrightarrow> xs ! (a + k) = ys ! (a + k)"
  shows "take n (drop a xs) = take n (drop a ys)"
proof (rule nth_equalityI)
  from assms(1,2) show "length (take n (drop a xs)) = length (take n (drop a ys))" by simp
next
  fix k assume "k < length (take n (drop a xs))"
  with assms(1) have k: "k < n" by simp
  with assms show "take n (drop a xs) ! k = take n (drop a ys) ! k" by simp
qed

lemma take_drop_eq_listI:
  assumes "a + length T \<le> length xs" "\<And>k. k < length T \<Longrightarrow> xs ! (a + k) = T ! k"
  shows "take (length T) (drop a xs) = T"
proof (rule nth_equalityI)
  from assms(1) show "length (take (length T) (drop a xs)) = length T" by simp
next
  fix k assume "k < length (take (length T) (drop a xs))"
  with assms(1) have k: "k < length T" by simp
  with assms show "take (length T) (drop a xs) ! k = T ! k" by simp
qed

lemma Get_scan_effect:
  assumes lay: "pool_layout p" and T: "length T = poolItemSize p"
    and sc: "scan_lut (poolBlock p) (capacity p div 8) 0 = Inr (Some (i, j))"
  shows "\<exists>p'. Get_scan T self p = (Inr (OffsetPtr_make self (i * 8 + j)), p')
      \<and> capacity p' = capacity p \<and> pMem p' = pMem p \<and> poolItemSize p' = poolItemSize p
      \<and> sizeP p' = u64 (sizeP p + 1)
      \<and> length (poolBlock p') = length (poolBlock p)
      \<and> bitmap p' = (bitmap p)[i := bitmap p ! i OR push_bit j 1]
      \<and> (\<forall>k < capacity p. lut_bit (poolBlock p') k = (k = i * 8 + j \<or> lut_bit (poolBlock p) k))
      \<and> read_object (length T) self p' (OffsetPtr_make self (i * 8 + j)) = Some T
      \<and> (\<forall>s' < capacity p. s' \<noteq> i * 8 + j \<longrightarrow>
            read_object (length T) self p' (OffsetPtr_make self s')
            = read_object (length T) self p (OffsetPtr_make self s'))"
proof -
  define s where "s = i * 8 + j"
  define sz where "sz = length T"
  define a where "a = pMem p + s * sz"
  define m1 where "m1 = (poolBlock p)[i := poolBlock p ! i OR push_bit j 1]"
  define c8 where "c8 = capacity p div 8"
  from T have Tle: "length T \<le> poolItemSize p" by simp
  from Get_scan_claims [OF lay Tle sc, of self] obtain m where
    G: "Get_scan T self p = (Inr (OffsetPtr_make self s), p\<lparr>poolBlock := m, sizeP := u64 (sizeP p + 1)\<rparr>)"
    and lm: "length m = length (poolBlock p)"
    and nth: "\<And>k. k < length m \<Longrightarrow> m ! k = (if a \<le> k \<and> k < a + sz then T ! (k - a) else m1 ! k)"
    unfolding s_def sz_def a_def m1_def by blast
  define p' where "p' = p\<lparr>poolBlock := m, sizeP := u64 (sizeP p + 1)\<rparr>"
  from scan_lut_Some [OF sc] have i: "i < c8" "i < length (poolBlock p)" "j < 8"
    by (auto simp: c8_def)
  have pm: "pMem p = c8" using layout_facts(6) [OF lay] by (simp add: c8_def)
  have c8len: "c8 \<le> length (poolBlock p)" using layout_facts(3) [OF lay] by (simp add: c8_def)
  from i(1,3) have "s < c8 * 8" by (simp add: s_def)
  with layout_facts(1) [OF lay] have scap: "s < capacity p" by (simp add: c8_def)
  have fit: "\<And>s'. s' < capacity p \<Longrightarrow> pMem p + s' * sz + sz \<le> length (poolBlock p)"
    using slot_fits [OF lay] by (simp add: sz_def T)
  have low: "\<And>k. k < c8 \<Longrightarrow> m ! k = m1 ! k"
  proof -
    fix k assume k: "k < c8"
    with c8len lm have "k < length m" by simp
    moreover from k pm have "\<not> a \<le> k" by (simp add: a_def)
    ultimately show "m ! k = m1 ! k" using nth by simp
  qed
  have B: "bitmap p' = (bitmap p)[i := bitmap p ! i OR push_bit j 1]"
  proof (rule nth_equalityI)
    show "length (bitmap p') = length ((bitmap p)[i := bitmap p ! i OR push_bit j 1])"
      using c8len lm by (simp add: bitmap_def p'_def)
  next
    fix k assume "k < length (bitmap p')"
    with c8len lm have k: "k < c8" by (simp add: bitmap_def p'_def c8_def)
    with c8len lm have "bitmap p' ! k = m ! k" by (simp add: bitmap_def p'_def c8_def)
    also have "\<dots> = m1 ! k" using k by (rule low)
    also have "\<dots> = (bitmap p)[i := bitmap p ! i OR push_bit j 1] ! k"
      using k i c8len by (simp add: m1_def bitmap_def c8_def nth_list_update del: push_bit_of_1)
    finally show "bitmap p' ! k = (bitmap p)[i := bitmap p ! i OR push_bit j 1] ! k" .
  qed
  have L: "\<forall>k < capacity p. lut_bit (poolBlock p') k = (k = s \<or> lut_bit (poolBlock p) k)"
  proof (intro allI impI)
    fix k assume "k < capacity p"
    with slot_div8 [OF lay] have "k div 8 < c8" by (simp add: c8_def)
    then have "lut_bit m k = lut_bit m1 k" by (simp add: lut_bit_def low)
    also have "\<dots> = (k = s \<or> lut_bit (poolBlock p) k)"
      unfolding m1_def s_def using i(2,3) by (rule lut_bit_set)
    finally show "lut_bit (poolBlock p') k = (k = s \<or> lut_bit (poolBlock p) k)"
      by (simp add: p'_def)
  qed
  have R: "read_object sz self p' (OffsetPtr_make self s) = Some T"
  proof -
    from fit [OF scap] lm have f: "pMem p' + s * sz + sz \<le> length (poolBlock p')"
      by (simp add: p'_def)
    have "take (length T) (drop a m) = T"
    proof (rule take_drop_eq_listI)
      from fit [OF scap] lm show "a + length T \<le> length m" by (simp add: a_def sz_def)
    next
      fix k assume k: "k < length T"
      with fit [OF scap] lm have "a + k < length m" by (simp add: a_def sz_def)
      from nth [OF this] k show "m ! (a + k) = T ! k" by (simp add: sz_def)
    qed
    with read_object_bytes [OF f] show ?thesis by (simp add: p'_def a_def sz_def)
  qed
  have O: "\<forall>s' < capacity p. s' \<noteq> s \<longrightarrow>
            read_object sz self p' (OffsetPtr_make self s')
            = read_object sz self p (OffsetPtr_make self s')"
  proof (intro allI impI)
    fix s' assume s': "s' < capacity p" "s' \<noteq> s"
    from fit [OF s'(1)] lm have f': "pMem p' + s' * sz + sz \<le> length (poolBlock p')"
      by (simp add: p'_def)
    have "take sz (drop (pMem p + s' * sz) m) = take sz (drop (pMem p + s' * sz) (poolBlock p))"
    proof (rule take_drop_eqI)
      from fit [OF s'(1)] lm show "pMem p + s' * sz + sz \<le> length m" by simp
      from fit [OF s'(1)] show "pMem p + s' * sz + sz \<le> length (poolBlock p)" .
    next
      fix k assume k: "k < sz"
      with fit [OF s'(1)] lm have in_m: "pMem p + s' * sz + k < length m" by simp
      from slots_disjoint [OF s'(2) k, of "pMem p"]
      have "\<not> (a \<le> pMem p + s' * sz + k \<and> pMem p + s' * sz + k < a + sz)"
        by (simp add: a_def)
      with nth [OF in_m] have "m ! (pMem p + s' * sz + k) = m1 ! (pMem p + s' * sz + k)" by simp
      also from i(1) pm have "\<dots> = poolBlock p ! (pMem p + s' * sz + k)"
        by (simp add: m1_def)
      finally show "m ! (pMem p + s' * sz + k) = poolBlock p ! (pMem p + s' * sz + k)" .
    qed
    with read_object_bytes [OF f'] read_object_bytes [OF fit [OF s'(1)]]
    show "read_object sz self p' (OffsetPtr_make self s')
            = read_object sz self p (OffsetPtr_make self s')"
      by (simp add: p'_def)
  qed
  have "Get_scan T self p = (Inr (OffsetPtr_make self s), p')" using G by (simp add: p'_def)
  moreover have "capacity p' = capacity p \<and> pMem p' = pMem p \<and> poolItemSize p' = poolItemSize p
      \<and> sizeP p' = u64 (sizeP p + 1) \<and> length (poolBlock p') = length (poolBlock p)"
    using lm by (simp add: p'_def)
  ultimately show ?thesis using B L R O unfolding s_def sz_def by blast
qed

subsection \<open>Growth, and Get step by step\<close>

lemma popcount_append: "popcount (xs @ ys) = popcount xs + popcount ys"
  by (simp add: popcount_def)

lemma popcount8_zero: "popcount8 0 = 0"
  by (simp add: popcount8_def)

lemma popcount_zeros: "popcount (replicate n 0) = 0"
  by (induction n) (simp_all add: popcount_def popcount8_zero)

lemma Reallocate_effect:
  assumes lay: "pool_layout p" and small: "2 * length (poolBlock p) < 2 ^ 64"
  shows "\<exists>p'. Reallocate p = Inr p' \<and> pool_layout p'
      \<and> capacity p' = 2 * capacity p \<and> sizeP p' = sizeP p \<and> poolItemSize p' = poolItemSize p
      \<and> length (poolBlock p') = 2 * length (poolBlock p)
      \<and> bitmap p' = bitmap p @ replicate (capacity p div 8) 0
      \<and> (\<forall>k < capacity p. lut_bit (poolBlock p') k = lut_bit (poolBlock p) k)
      \<and> (\<forall>k. capacity p \<le> k \<and> k < 2 * capacity p \<longrightarrow> \<not> lut_bit (poolBlock p') k)
      \<and> take (poolItemSize p * capacity p) (drop (pMem p') (poolBlock p'))
          = take (poolItemSize p * capacity p) (drop (pMem p) (poolBlock p))
      \<and> (\<forall>s < capacity p.
            read_object (poolItemSize p) self p' (OffsetPtr_make self s)
            = read_object (poolItemSize p) self p (OffsetPtr_make self s))"
proof -
  define c8 where "c8 = capacity p div 8"
  define sz where "sz = poolItemSize p"
  from Reallocate_layout [OF lay small] obtain m where
    R: "Reallocate p = Inr (p\<lparr>poolBlock := m, pMem := 2 * capacity p div 8,
                                      capacity := 2 * capacity p\<rparr>)"
    and lm: "length m = 2 * length (poolBlock p)"
    and A: "\<And>k. k < c8 \<Longrightarrow> m ! k = poolBlock p ! k"
    and B: "\<And>k. c8 \<le> k \<Longrightarrow> k < 2 * capacity p div 8 \<Longrightarrow> m ! k = 0"
    and C: "\<And>k. k < sz * capacity p \<Longrightarrow> m ! (2 * capacity p div 8 + k) = poolBlock p ! (pMem p + k)"
    unfolding c8_def sz_def by blast
  define p' where "p' = p\<lparr>poolBlock := m, pMem := 2 * capacity p div 8, capacity := 2 * capacity p\<rparr>"
  have cap: "capacity p = c8 * 8" using layout_facts(1) [OF lay] by (simp add: c8_def)
  have d2: "2 * capacity p div 8 = 2 * c8" using cap by simp
  have pm: "pMem p = c8" using layout_facts(6) [OF lay] by (simp add: c8_def)
  have len: "length (poolBlock p) = c8 + sz * capacity p"
    using lay by (simp add: pool_layout_def c8_def sz_def)
  have lay': "pool_layout p'"
  proof -
    have m8: "(2 * capacity p) mod 8 = 0" using cap by simp
    have item: "0 < poolItemSize p" using lay by (simp add: pool_layout_def)
    have l: "length m = 2 * capacity p div 8 + poolItemSize p * (2 * capacity p)"
      using lm len by (simp only: d2) (simp add: sz_def)
    have lt: "length m < 2 ^ 64" using lm small by simp
    from m8 item l lt show ?thesis unfolding pool_layout_def p'_def by simp
  qed
  have bm: "bitmap p' = bitmap p @ replicate c8 0"
  proof (rule nth_equalityI)
    show "length (bitmap p') = length (bitmap p @ replicate c8 0)"
      using lm len by (simp add: bitmap_def p'_def d2 c8_def [symmetric])
  next
    fix k assume "k < length (bitmap p')"
    with lm len have k: "k < 2 * c8" by (simp add: bitmap_def p'_def d2)
    with lm len have e: "bitmap p' ! k = m ! k" by (simp add: bitmap_def p'_def d2)
    show "bitmap p' ! k = (bitmap p @ replicate c8 0) ! k"
    proof (cases "k < c8")
      case True
      with e A len show ?thesis by (simp add: nth_append bitmap_def c8_def [symmetric])
    next
      case False
      with k have "m ! k = 0" by (intro B) (simp_all add: d2)
      with e False k len show ?thesis by (simp add: nth_append bitmap_def c8_def [symmetric])
    qed
  qed
  have old_bits: "\<forall>k < capacity p. lut_bit (poolBlock p') k = lut_bit (poolBlock p) k"
  proof (intro allI impI)
    fix k assume "k < capacity p"
    with slot_div8 [OF lay] have "k div 8 < c8" by (simp add: c8_def)
    then show "lut_bit (poolBlock p') k = lut_bit (poolBlock p) k"
      by (simp add: lut_bit_def p'_def A)
  qed
  have new_bits: "\<forall>k. capacity p \<le> k \<and> k < 2 * capacity p \<longrightarrow> \<not> lut_bit (poolBlock p') k"
  proof (intro allI impI)
    fix k assume k: "capacity p \<le> k \<and> k < 2 * capacity p"
    then have "c8 * 8 \<le> k" "k < (2 * c8) * 8" using cap by simp_all
    then have "c8 \<le> k div 8" "k div 8 < 2 * c8"
      by (simp_all add: less_eq_div_iff_mult_less_eq div_less_iff_less_mult)
    then have "m ! (k div 8) = 0" by (intro B) (simp_all add: d2)
    then show "\<not> lut_bit (poolBlock p') k" by (simp add: lut_bit_def p'_def)
  qed
  have objs: "take (sz * capacity p) (drop (pMem p') (poolBlock p'))
          = take (sz * capacity p) (drop (pMem p) (poolBlock p))"
  proof (rule nth_equalityI)
    show "length (take (sz * capacity p) (drop (pMem p') (poolBlock p')))
          = length (take (sz * capacity p) (drop (pMem p) (poolBlock p)))"
      using lm len pm by (simp add: p'_def d2)
  next
    fix k assume "k < length (take (sz * capacity p) (drop (pMem p') (poolBlock p')))"
    then have k: "k < sz * capacity p" by simp
    with lm len pm C [OF k]
    show "take (sz * capacity p) (drop (pMem p') (poolBlock p')) ! k
          = take (sz * capacity p) (drop (pMem p) (poolBlock p)) ! k"
      by (simp add: p'_def d2)
  qed
  have reads: "\<forall>s < capacity p.
            read_object sz self p' (OffsetPtr_make self s)
            = read_object sz self p (OffsetPtr_make self s)"
  proof (intro allI impI)
    fix s assume s: "s < capacity p"
    from slot_fits [OF lay s] have f: "pMem p + s * sz + sz \<le> length (poolBlock p)"
      by (simp add: sz_def)
    then have s1: "s * sz + sz \<le> sz * capacity p" using len pm by simp
    with lm len have f': "pMem p' + s * sz + sz \<le> length (poolBlock p')"
      by (simp add: p'_def d2)
    have "take sz (drop (pMem p' + s * sz) (poolBlock p'))
          = take sz (drop (pMem p + s * sz) (poolBlock p))"
    proof (rule nth_equalityI)
      show "length (take sz (drop (pMem p' + s * sz) (poolBlock p')))
            = length (take sz (drop (pMem p + s * sz) (poolBlock p)))"
        using f f' by simp
    next
      fix k assume "k < length (take sz (drop (pMem p' + s * sz) (poolBlock p')))"
      then have k: "k < sz" by simp
      with s1 have "s * sz + k < sz * capacity p" by simp
      from C [OF this] k f f'
      show "take sz (drop (pMem p' + s * sz) (poolBlock p')) ! k
            = take sz (drop (pMem p + s * sz) (poolBlock p)) ! k"
        by (simp add: p'_def add.assoc)
    qed
    with read_object_bytes [OF f] read_object_bytes [OF f']
    show "read_object sz self p' (OffsetPtr_make self s)
            = read_object sz self p (OffsetPtr_make self s)" by simp
  qed
  have "Reallocate p = Inr p'" using R by (simp add: p'_def)
  moreover have "capacity p' = 2 * capacity p \<and> sizeP p' = sizeP p
      \<and> poolItemSize p' = poolItemSize p \<and> length (poolBlock p') = 2 * length (poolBlock p)"
    using lm by (simp add: p'_def)
  ultimately show ?thesis using lay' bm old_bits new_bits objs reads
    unfolding c8_def sz_def by blast
qed

lemma Get_no_growth_step:
  assumes lay: "pool_layout p" and inv: "size_is_popcount p" and T: "length T = poolItemSize p"
    and k: "k < capacity p" "\<not> lut_bit (poolBlock p) k"
  shows "\<exists>s p'. Get R T self p = (Inr (OffsetPtr_make self s), p')
      \<and> s \<le> k \<and> \<not> lut_bit (poolBlock p) s \<and> (\<forall>s' < s. lut_bit (poolBlock p) s')
      \<and> pool_layout p' \<and> size_is_popcount p'
      \<and> capacity p' = capacity p \<and> poolItemSize p' = poolItemSize p
      \<and> sizeP p' = sizeP p + 1 \<and> length (poolBlock p') = length (poolBlock p)
      \<and> (\<forall>k' < capacity p. lut_bit (poolBlock p') k' = (k' = s \<or> lut_bit (poolBlock p) k'))
      \<and> read_object (length T) self p' (OffsetPtr_make self s) = Some T
      \<and> (\<forall>s' < capacity p. s' \<noteq> s \<longrightarrow>
            read_object (length T) self p' (OffsetPtr_make self s')
            = read_object (length T) self p (OffsetPtr_make self s'))"
proof -
  from size_lt_capacity [OF lay inv k] have lt: "sizeP p < capacity p" .
  with layout_facts(4) [OF lay] have u: "u64 (sizeP p + 1) = sizeP p + 1"
    by (simp add: u64_id)
  with lt have G: "Get R T self p = Get_scan T self p" by (simp add: Get_eq)
  from scan_finds_first_free [OF lay k] obtain i j where
    sc: "scan_lut (poolBlock p) (capacity p div 8) 0 = Inr (Some (i, j))"
    and first: "i * 8 + j \<le> k" "\<not> lut_bit (poolBlock p) (i * 8 + j)"
      "\<forall>s < i * 8 + j. lut_bit (poolBlock p) s" by blast
  from Get_scan_effect [OF lay T sc, of self] obtain p' where
    E: "Get_scan T self p = (Inr (OffsetPtr_make self (i * 8 + j)), p')"
      "capacity p' = capacity p" "pMem p' = pMem p" "poolItemSize p' = poolItemSize p"
      "sizeP p' = u64 (sizeP p + 1)" "length (poolBlock p') = length (poolBlock p)"
      "bitmap p' = (bitmap p)[i := bitmap p ! i OR push_bit j 1]"
      "\<forall>k < capacity p. lut_bit (poolBlock p') k = (k = i * 8 + j \<or> lut_bit (poolBlock p) k)"
      "read_object (length T) self p' (OffsetPtr_make self (i * 8 + j)) = Some T"
      "\<forall>s' < capacity p. s' \<noteq> i * 8 + j \<longrightarrow>
            read_object (length T) self p' (OffsetPtr_make self s')
            = read_object (length T) self p (OffsetPtr_make self s')"
    by blast
  have lay': "pool_layout p'" using lay E(2,3,4,6) by (simp add: pool_layout_def)
  from scan_lut_Some [OF sc] have ij: "i < capacity p div 8" "j < 8" "\<not> bit (poolBlock p ! i) j"
    by auto
  have il: "i < length (bitmap p)" using ij(1) layout_facts(5) [OF lay] by simp
  have nb: "\<not> bit (bitmap p ! i) j" using ij(1,3) by (simp add: bitmap_nth)
  have "popcount (bitmap p') + popcount8 (bitmap p ! i)
        = popcount (bitmap p) + popcount8 (bitmap p ! i OR push_bit j 1)"
    unfolding E(7) using il by (rule popcount_update)
  also have "popcount8 (bitmap p ! i OR push_bit j 1) = popcount8 (bitmap p ! i) + 1"
    using ij(2) nb by (rule popcount8_set)
  finally have "popcount (bitmap p') = popcount (bitmap p) + 1" by simp
  with inv E(5) u have inv': "size_is_popcount p'" by (simp add: size_is_popcount_def)
  from G E(1) have "Get R T self p = (Inr (OffsetPtr_make self (i * 8 + j)), p')" by simp
  moreover from E(5) u have "sizeP p' = sizeP p + 1" by simp
  ultimately show ?thesis using first lay' inv' E(2,4,6,8,9,10) by blast
qed

lemma full_bits:
  assumes "pool_layout p" "size_is_popcount p" "capacity p \<le> sizeP p"
  shows "\<forall>k < capacity p. lut_bit (poolBlock p) k"
proof (intro allI impI)
  fix k assume k: "k < capacity p"
  show "lut_bit (poolBlock p) k"
  proof (rule ccontr)
    assume "\<not> lut_bit (poolBlock p) k"
    from size_lt_capacity [OF assms(1,2) k this] assms(3) show False by simp
  qed
qed

lemma size_le_capacity:
  assumes "pool_layout p" "size_is_popcount p"
  shows "sizeP p \<le> capacity p"
proof -
  have "popcount (bitmap p) \<le> 8 * length (bitmap p)" by (rule popcount_le)
  with layout_facts(1,5) [OF assms(1)] assms(2) show ?thesis
    by (simp add: size_is_popcount_def mult.commute)
qed

lemma Reallocate_popcount:
  assumes "pool_layout p" "size_is_popcount p" "Reallocate p = Inr p'"
    "bitmap p' = bitmap p @ replicate (capacity p div 8) 0" "sizeP p' = sizeP p"
  shows "size_is_popcount p'"
  using assms(2,4,5) by (simp add: size_is_popcount_def popcount_append popcount_zeros)

lemma Get_growth_step:
  assumes lay: "pool_layout p" and inv: "size_is_popcount p" and T: "length T = poolItemSize p"
    and full: "sizeP p = capacity p" and pos: "0 < capacity p"
    and small: "2 * length (poolBlock p) < 2 ^ 64"
  shows "\<exists>p'. Get True T self p = (Inr (OffsetPtr_make self (capacity p)), p')
      \<and> pool_layout p' \<and> size_is_popcount p'
      \<and> capacity p' = 2 * capacity p \<and> poolItemSize p' = poolItemSize p
      \<and> sizeP p' = sizeP p + 1 \<and> length (poolBlock p') = 2 * length (poolBlock p)
      \<and> (\<forall>k < 2 * capacity p. lut_bit (poolBlock p') k = (k \<le> capacity p))
      \<and> read_object (length T) self p' (OffsetPtr_make self (capacity p)) = Some T
      \<and> (\<forall>s < capacity p.
            read_object (length T) self p' (OffsetPtr_make self s)
            = read_object (length T) self p (OffsetPtr_make self s))"
proof -
  have "length (poolBlock p) = capacity p div 8 + poolItemSize p * capacity p"
    using lay by (simp add: pool_layout_def)
  with layout_facts(2) [OF lay] have "capacity p \<le> length (poolBlock p)" by arith
  with small have "capacity p + 1 < 2 ^ 64" by simp
  with full have grow: "capacity p < u64 (sizeP p + 1)" by (simp add: u64_id)
  from Reallocate_effect [OF lay small, of self] obtain p1 where
    R: "Reallocate p = Inr p1" "pool_layout p1" "capacity p1 = 2 * capacity p"
      "sizeP p1 = sizeP p" "poolItemSize p1 = poolItemSize p"
      "length (poolBlock p1) = 2 * length (poolBlock p)"
      "bitmap p1 = bitmap p @ replicate (capacity p div 8) 0"
      "\<forall>k < capacity p. lut_bit (poolBlock p1) k = lut_bit (poolBlock p) k"
      "\<forall>k. capacity p \<le> k \<and> k < 2 * capacity p \<longrightarrow> \<not> lut_bit (poolBlock p1) k"
      "\<forall>s < capacity p.
            read_object (poolItemSize p) self p1 (OffsetPtr_make self s)
            = read_object (poolItemSize p) self p (OffsetPtr_make self s)"
    by blast
  have inv1: "size_is_popcount p1" using lay inv R(1,7,4) by (rule Reallocate_popcount)
  have T1: "length T = poolItemSize p1" using T R(5) by simp
  from full pos R(3,4) layout_facts(4) [OF R(2)]
  have ng: "\<not> capacity p1 < u64 (sizeP p1 + 1)" by (simp add: u64_id)
  have G: "Get True T self p = Get True T self p1"
    using grow R(1) ng by (simp add: Get_eq)
  have k1: "capacity p < capacity p1" using pos R(3) by simp
  have k2: "\<not> lut_bit (poolBlock p1) (capacity p)" using R(9) pos by simp
  from Get_no_growth_step [OF R(2) inv1 T1 k1 k2, of True self] obtain s p' where
    S: "Get True T self p1 = (Inr (OffsetPtr_make self s), p')"
      "s \<le> capacity p" "\<not> lut_bit (poolBlock p1) s"
      "pool_layout p'" "size_is_popcount p'"
      "capacity p' = capacity p1" "poolItemSize p' = poolItemSize p1"
      "sizeP p' = sizeP p1 + 1" "length (poolBlock p') = length (poolBlock p1)"
      "\<forall>k' < capacity p1. lut_bit (poolBlock p') k' = (k' = s \<or> lut_bit (poolBlock p1) k')"
      "read_object (length T) self p' (OffsetPtr_make self s) = Some T"
      "\<forall>s' < capacity p1. s' \<noteq> s \<longrightarrow>
            read_object (length T) self p' (OffsetPtr_make self s')
            = read_object (length T) self p1 (OffsetPtr_make self s')"
    by blast
  from full_bits [OF lay inv] full have fb: "\<forall>k < capacity p. lut_bit (poolBlock p) k" by simp
  have s: "s = capacity p"
  proof (rule ccontr)
    assume "s \<noteq> capacity p"
    with S(2) have "s < capacity p" by simp
    with fb R(8) S(3) show False by simp
  qed
  have bits: "\<forall>k < 2 * capacity p. lut_bit (poolBlock p') k = (k \<le> capacity p)"
  proof (intro allI impI)
    fix k assume k: "k < 2 * capacity p"
    with S(10) R(3) s have e: "lut_bit (poolBlock p') k = (k = capacity p \<or> lut_bit (poolBlock p1) k)"
      by simp
    show "lut_bit (poolBlock p') k = (k \<le> capacity p)"
    proof (cases "k < capacity p")
      case True
      with fb R(8) e show ?thesis by simp
    next
      case False
      with k R(9) e show ?thesis by auto
    qed
  qed
  have reads: "\<forall>s' < capacity p.
            read_object (length T) self p' (OffsetPtr_make self s')
            = read_object (length T) self p (OffsetPtr_make self s')"
  proof (intro allI impI)
    fix s' assume s': "s' < capacity p"
    with S(12) R(3) s have "read_object (length T) self p' (OffsetPtr_make self s')
            = read_object (length T) self p1 (OffsetPtr_make self s')" by simp
    with R(10) s' T show "read_object (length T) self p' (OffsetPtr_make self s')
            = read_object (length T) self p (OffsetPtr_make self s')" by simp
  qed
  from G S(1) s have "Get True T self p = (Inr (OffsetPtr_make self (capacity p)), p')" by simp
  moreover from S(6,7,8,9) R(3,4,5,6) have "capacity p' = 2 * capacity p
      \<and> poolItemSize p' = poolItemSize p \<and> sizeP p' = sizeP p + 1
      \<and> length (poolBlock p') = 2 * length (poolBlock p)" by simp
  moreover from S(11) s have "read_object (length T) self p' (OffsetPtr_make self (capacity p)) = Some T"
    by simp
  ultimately show ?thesis using S(4,5) bits reads by blast
qed

lemma popcount8_full:
  assumes "\<forall>j < 8. bit b j"
  shows "popcount8 b = 8"
proof -
  from assms have "filter (bit b) [0..<8] = [0..<8]" by (intro filter_True) simp
  then show ?thesis by (simp add: popcount8_def)
qed

lemma popcount_full:
  assumes "\<forall>i < length bs. \<forall>j < 8. bit (bs ! i) j"
  shows "popcount bs = 8 * length bs"
  using assms
proof (induction bs)
  case Nil
  then show ?case by (simp add: popcount_def)
next
  case (Cons b bs)
  from Cons.prems have "\<forall>j < 8. bit b j" by auto
  then have h: "popcount8 b = 8" by (rule popcount8_full)
  have "\<forall>i < length bs. \<forall>j < 8. bit (bs ! i) j"
  proof (intro allI impI)
    fix i j assume "i < length bs" "j < (8::nat)"
    with Cons.prems [rule_format, of "Suc i" j] show "bit (bs ! i) j" by simp
  qed
  then have "popcount bs = 8 * length bs" by (rule Cons.IH)
  with h show ?case by (simp add: popcount_def)
qed

lemma exists_free_slot:
  assumes lay: "pool_layout p" and inv: "size_is_popcount p" and lt: "sizeP p < capacity p"
  shows "\<exists>k < capacity p. \<not> lut_bit (poolBlock p) k"
proof (rule ccontr)
  assume "\<not> (\<exists>k < capacity p. \<not> lut_bit (poolBlock p) k)"
  then have all: "\<And>k. k < capacity p \<Longrightarrow> lut_bit (poolBlock p) k" by blast
  have "\<forall>i < length (bitmap p). \<forall>j < 8. bit (bitmap p ! i) j"
  proof (intro allI impI)
    fix i j assume i: "i < length (bitmap p)" and j: "j < (8::nat)"
    from i layout_facts(5) [OF lay] have i8: "i < capacity p div 8" by simp
    with j have "i * 8 + j < capacity p div 8 * 8" by simp
    with layout_facts(1) [OF lay] have "i * 8 + j < capacity p" by simp
    from all [OF this] j have "bit (poolBlock p ! i) j" by (simp add: lut_bit_def)
    with i8 show "bit (bitmap p ! i) j" by (simp add: bitmap_nth)
  qed
  then have "popcount (bitmap p) = 8 * length (bitmap p)" by (rule popcount_full)
  with layout_facts(1,5) [OF lay] inv lt show False
    by (simp add: size_is_popcount_def mult.commute)
qed

text \<open>Every call of \<open>Get\<close> keeps the layout and the invariant, and the live slots.\<close>

lemma Get_step:
  assumes lay: "pool_layout p" and inv: "size_is_popcount p" and T: "length T = poolItemSize p"
    and small: "R \<longrightarrow> 2 * length (poolBlock p) < 2 ^ 64"
  shows "\<exists>r p'. Get R T self p = (r, p') \<and> pool_layout p' \<and> size_is_popcount p'
      \<and> poolItemSize p' = poolItemSize p \<and> capacity p \<le> capacity p'
      \<and> length (poolBlock p') \<le> 2 * length (poolBlock p)
      \<and> (\<forall>s < capacity p. lut_bit (poolBlock p) s \<longrightarrow>
            lut_bit (poolBlock p') s
            \<and> read_object (length T) self p' (OffsetPtr_make self s)
              = read_object (length T) self p (OffsetPtr_make self s))"
proof (cases "sizeP p < capacity p")
  case True
  from exists_free_slot [OF lay inv True] obtain k where
    k: "k < capacity p" "\<not> lut_bit (poolBlock p) k" by blast
  from Get_no_growth_step [OF lay inv T k, of R self] obtain s p' where
    S: "Get R T self p = (Inr (OffsetPtr_make self s), p')"
      "\<not> lut_bit (poolBlock p) s" "pool_layout p'" "size_is_popcount p'"
      "capacity p' = capacity p" "poolItemSize p' = poolItemSize p"
      "length (poolBlock p') = length (poolBlock p)"
      "\<forall>k' < capacity p. lut_bit (poolBlock p') k' = (k' = s \<or> lut_bit (poolBlock p) k')"
      "\<forall>s' < capacity p. s' \<noteq> s \<longrightarrow>
            read_object (length T) self p' (OffsetPtr_make self s')
            = read_object (length T) self p (OffsetPtr_make self s')"
    by blast
  have "\<forall>s' < capacity p. lut_bit (poolBlock p) s' \<longrightarrow>
            lut_bit (poolBlock p') s'
            \<and> read_object (length T) self p' (OffsetPtr_make self s')
              = read_object (length T) self p (OffsetPtr_make self s')"
  proof (intro allI impI)
    fix s' assume s': "s' < capacity p" "lut_bit (poolBlock p) s'"
    with S(2) have "s' \<noteq> s" by auto
    with s' S(8,9) show "lut_bit (poolBlock p') s'
            \<and> read_object (length T) self p' (OffsetPtr_make self s')
              = read_object (length T) self p (OffsetPtr_make self s')" by simp
  qed
  with S(1,3,4,5,6,7) show ?thesis by simp
next
  case False
  with size_le_capacity [OF lay inv] have full: "sizeP p = capacity p" by simp
  have "length (poolBlock p) = capacity p div 8 + poolItemSize p * capacity p"
    "length (poolBlock p) < 2 ^ 64"
    using lay by (simp_all add: pool_layout_def)
  with layout_facts(2) [OF lay] have c1: "capacity p \<le> length (poolBlock p)" by arith
  show ?thesis
  proof (cases R)
    case False
    have "capacity p mod 8 = 0" using lay by (simp add: pool_layout_def)
    then have "capacity p \<noteq> 2 ^ 64 - 1" by auto
    with layout_facts(4) [OF lay] have "capacity p + 1 < 2 ^ 64" by simp
    with full have "capacity p < u64 (sizeP p + 1)" by (simp add: u64_id)
    with False have "Get R T self p = (Inr OffsetPtr_default, p)" by (simp add: Get_eq)
    with lay inv show ?thesis by simp
  next
    case True
    with small have sm: "2 * length (poolBlock p) < 2 ^ 64" by simp
    show ?thesis
    proof (cases "0 < capacity p")
      case True
      from Get_growth_step [OF lay inv T full True sm, of self] obtain p' where
        S: "Get True T self p = (Inr (OffsetPtr_make self (capacity p)), p')"
          "pool_layout p'" "size_is_popcount p'" "capacity p' = 2 * capacity p"
          "poolItemSize p' = poolItemSize p" "length (poolBlock p') = 2 * length (poolBlock p)"
          "\<forall>k < 2 * capacity p. lut_bit (poolBlock p') k = (k \<le> capacity p)"
          "\<forall>s < capacity p.
            read_object (length T) self p' (OffsetPtr_make self s)
            = read_object (length T) self p (OffsetPtr_make self s)"
        by blast
      from S(7,8) have "\<forall>s < capacity p. lut_bit (poolBlock p) s \<longrightarrow>
            lut_bit (poolBlock p') s
            \<and> read_object (length T) self p' (OffsetPtr_make self s)
              = read_object (length T) self p (OffsetPtr_make self s)" by simp
      with S(1,2,3,4,5,6) \<open>R\<close> show ?thesis by simp
    next
      case False
      then have z: "capacity p = 0" by simp
      with c1 full sm have grow: "capacity p < u64 (sizeP p + 1)" by (simp add: u64_id)
      from Reallocate_effect [OF lay sm, of self] obtain p1 where
        R1: "Reallocate p = Inr p1" "pool_layout p1" "capacity p1 = 2 * capacity p"
          "sizeP p1 = sizeP p" "poolItemSize p1 = poolItemSize p"
          "length (poolBlock p1) = 2 * length (poolBlock p)"
          "bitmap p1 = bitmap p @ replicate (capacity p div 8) 0"
        by blast
      have inv1: "size_is_popcount p1" using lay inv R1(1,7,4) by (rule Reallocate_popcount)
      have "Get_scan T self p1 = (Inl BadAlloc, p1)"
        using R1(3) z by (simp add: Get_scan_def scan_lut.simps)
      with grow R1(1) \<open>R\<close> have "Get R T self p = (Inl BadAlloc, p1)" by (simp add: Get_eq)
      with R1(2,3,5,6) inv1 z show ?thesis by simp
    qed
  qed
qed

lemma Get_times_keeps_live:
  assumes "pool_layout p" "size_is_popcount p" "length T = poolItemSize p"
    "2 ^ n * length (poolBlock p) < 2 ^ 64"
  shows "pool_layout (Get_times n True T self p) \<and> size_is_popcount (Get_times n True T self p)
      \<and> capacity p \<le> capacity (Get_times n True T self p)
      \<and> (\<forall>s < capacity p. lut_bit (poolBlock p) s \<longrightarrow>
            lut_bit (poolBlock (Get_times n True T self p)) s
            \<and> read_object (length T) self (Get_times n True T self p) (OffsetPtr_make self s)
              = read_object (length T) self p (OffsetPtr_make self s))"
  using assms
proof (induction n arbitrary: p)
  case 0
  then show ?case by simp
next
  case (Suc n)
  define X where "X = 2 ^ n * length (poolBlock p)"
  from Suc.prems(4) have a: "2 * X < 2 ^ 64" by (simp add: X_def mult.assoc)
  have "length (poolBlock p) \<le> X" by (simp add: X_def)
  with a have "2 * length (poolBlock p) < 2 ^ 64" by linarith
  then have sm: "True \<longrightarrow> 2 * length (poolBlock p) < 2 ^ 64" by simp
  from Get_step [OF Suc.prems(1,2,3) sm, of self] obtain r p' where
    S: "Get True T self p = (r, p')" "pool_layout p'" "size_is_popcount p'"
      "poolItemSize p' = poolItemSize p" "capacity p \<le> capacity p'"
      "length (poolBlock p') \<le> 2 * length (poolBlock p)"
      "\<forall>s < capacity p. lut_bit (poolBlock p) s \<longrightarrow>
            lut_bit (poolBlock p') s
            \<and> read_object (length T) self p' (OffsetPtr_make self s)
              = read_object (length T) self p (OffsetPtr_make self s)"
    by blast
  from S(6) have "2 ^ n * length (poolBlock p') \<le> 2 ^ n * (2 * length (poolBlock p))"
    by (rule mult_le_mono2)
  also have "\<dots> = 2 * X" by (simp add: X_def)
  finally have b: "2 ^ n * length (poolBlock p') < 2 ^ 64" using a by linarith
  from S(4) Suc.prems(3) have T': "length T = poolItemSize p'" by simp
  from Suc.IH [OF S(2,3) T' b]
  have IH: "pool_layout (Get_times n True T self p')" "size_is_popcount (Get_times n True T self p')"
    "capacity p' \<le> capacity (Get_times n True T self p')"
    "\<forall>s < capacity p'. lut_bit (poolBlock p') s \<longrightarrow>
            lut_bit (poolBlock (Get_times n True T self p')) s
            \<and> read_object (length T) self (Get_times n True T self p') (OffsetPtr_make self s)
              = read_object (length T) self p' (OffsetPtr_make self s)"
    by simp_all
  have e: "Get_times (Suc n) True T self p = Get_times n True T self p'" using S(1) by simp
  have "\<forall>s < capacity p. lut_bit (poolBlock p) s \<longrightarrow>
            lut_bit (poolBlock (Get_times n True T self p')) s
            \<and> read_object (length T) self (Get_times n True T self p') (OffsetPtr_make self s)
              = read_object (length T) self p (OffsetPtr_make self s)"
  proof (intro allI impI)
    fix s assume s: "s < capacity p" "lut_bit (poolBlock p) s"
    with S(7) have 1: "lut_bit (poolBlock p') s"
      "read_object (length T) self p' (OffsetPtr_make self s)
              = read_object (length T) self p (OffsetPtr_make self s)" by simp_all
    from s(1) S(5) have "s < capacity p'" by simp
    with IH(4) 1 show "lut_bit (poolBlock (Get_times n True T self p')) s
            \<and> read_object (length T) self (Get_times n True T self p') (OffsetPtr_make self s)
              = read_object (length T) self p (OffsetPtr_make self s)" by simp
  qed
  with IH(1,2,3) S(5) e show ?case by simp
qed

lemma Reallocate_bytes:
  assumes lay: "pool_layout p" and lay': "pool_layout p'"
    and cap: "capacity p' = 2 * capacity p"
    and bm: "bitmap p' = bitmap p @ replicate (capacity p div 8) 0"
  shows "take (capacity p div 8) (poolBlock p') = take (capacity p div 8) (poolBlock p)"
    and "\<forall>k. capacity p div 8 \<le> k \<and> k < capacity p' div 8 \<longrightarrow> poolBlock p' ! k = 0"
proof -
  define c8 where "c8 = capacity p div 8"
  have c: "capacity p = c8 * 8" using layout_facts(1) [OF lay] by (simp add: c8_def)
  with cap have c': "capacity p' div 8 = 2 * c8" by simp
  have l: "length (bitmap p) = c8" using layout_facts(5) [OF lay] by (simp add: c8_def)
  have "take c8 (bitmap p') = take c8 (poolBlock p')" by (simp add: bitmap_def c')
  moreover have "take c8 (bitmap p @ replicate c8 0) = bitmap p" using l by simp
  ultimately have "take c8 (poolBlock p') = bitmap p" using bm by (simp add: c8_def)
  then show "take (capacity p div 8) (poolBlock p') = take (capacity p div 8) (poolBlock p)"
    by (simp add: bitmap_def c8_def)
  show "\<forall>k. capacity p div 8 \<le> k \<and> k < capacity p' div 8 \<longrightarrow> poolBlock p' ! k = 0"
  proof (intro allI impI)
    fix k assume k: "capacity p div 8 \<le> k \<and> k < capacity p' div 8"
    with c' have k2: "c8 \<le> k" "k < 2 * c8" by (simp_all add: c8_def)
    then have "poolBlock p' ! k = bitmap p' ! k" by (simp add: bitmap_nth c')
    also have "\<dots> = (bitmap p @ replicate c8 0) ! k" using bm by (simp add: c8_def)
    also have "\<dots> = 0" using k2 l by (simp add: nth_append)
    finally show "poolBlock p' ! k = 0" .
  qed
qed

subsection \<open>Fresh pools and Pop\<close>

lemma Pool_init_inv:
  assumes "poolCapacity mod 8 = 0" "0 < elementSize"
    "poolCapacity div 8 + elementSize * poolCapacity < 2 ^ 64"
  shows "pool_layout (Pool_init elementSize poolCapacity)"
    and "size_is_popcount (Pool_init elementSize poolCapacity)"
    and "sizeP (Pool_init elementSize poolCapacity) = 0"
    and "\<forall>k < poolCapacity. \<not> lut_bit (poolBlock (Pool_init elementSize poolCapacity)) k"
proof -
  define n where "n = poolCapacity div 8 + elementSize * poolCapacity"
  from assms(3) have "elementSize * poolCapacity < 2 ^ 64" by simp
  with assms(3) have u: "u64 (poolCapacity div 8 + u64 (elementSize * poolCapacity)) = n"
    by (simp add: u64_id n_def)
  then have b: "poolBlock (Pool_init elementSize poolCapacity) = replicate n 0"
    by (simp add: Pool_init_def Alloc_def)
  with assms show "pool_layout (Pool_init elementSize poolCapacity)"
    by (simp add: pool_layout_def) (simp add: Pool_init_def n_def)
  have "bitmap (Pool_init elementSize poolCapacity) = replicate (poolCapacity div 8) 0"
    unfolding bitmap_def b by (simp add: Pool_init_def n_def min_def)
  then show "size_is_popcount (Pool_init elementSize poolCapacity)"
    by (simp add: size_is_popcount_def popcount_zeros) (simp add: Pool_init_def)
  show "sizeP (Pool_init elementSize poolCapacity) = 0" by (simp add: Pool_init_def)
  show "\<forall>k < poolCapacity. \<not> lut_bit (poolBlock (Pool_init elementSize poolCapacity)) k"
  proof (intro allI impI)
    fix k assume "k < poolCapacity"
    with assms(1) have "k div 8 < poolCapacity div 8" by (intro div8_less)
    then have "k div 8 < n" by (simp add: n_def)
    then show "\<not> lut_bit (poolBlock (Pool_init elementSize poolCapacity)) k"
      unfolding b by (simp add: lut_bit_def)
  qed
qed

lemma u64_dec:
  assumes "0 < n" "n < 2 ^ 64"
  shows "u64 (n + 2 ^ 64 - 1) = n - 1"
proof -
  define q :: nat where "q = 2 ^ 64"
  from assms(1) have a: "n + q - 1 = (n - 1) + q" by simp
  have b: "((n - 1) + q) mod q = (n - 1) mod q" by simp
  from assms(2) have c: "(n - 1) mod q = n - 1" by (simp add: q_def)
  show ?thesis unfolding u64_def q_def [symmetric] using a b c by simp
qed

text \<open>\<open>Pop\<close> of a handle of this pool with an index below the capacity.\<close>

lemma Pop_step:
  assumes lay: "pool_layout p" and inv: "size_is_popcount p"
    and h: "pContainer h = Some self" "offset h < capacity p" and sz: "0 < sz"
  shows "\<exists>p' h'. Pop sz self p h = (Inr (), p', h') \<and> pool_layout p' \<and> size_is_popcount p'
      \<and> capacity p' = capacity p
      \<and> (if lut_bit (poolBlock p) (offset h)
          then sizeP p' + 1 = sizeP p \<and> h' = \<lparr>offset = 0, pContainer = None\<rparr>
               \<and> (\<forall>k < capacity p. lut_bit (poolBlock p') k
                      = (k \<noteq> offset h \<and> lut_bit (poolBlock p) k))
          else p' = p \<and> h' = h)"
proof -
  define i where "i = offset h div 8"
  define j where "j = offset h mod 8"
  define b where "b = poolBlock p ! i"
  have j8: "j < 8" by (simp add: j_def)
  have idx: "offset h = i * 8 + j" by (simp add: i_def j_def)
  from slot_div8 [OF lay h(2)] have i8: "i < capacity p div 8" by (simp add: i_def)
  with layout_facts(3) [OF lay] have il: "i < length (poolBlock p)" by simp
  then have ld: "load (poolBlock p) i = Some b" by (simp add: load_def b_def)
  have "capacity p div 8 \<le> capacity p" by simp
  with i8 have "offset h div 8 < capacity p" unfolding i_def by (rule less_le_trans)
  then have "offset h \<noteq> 0 \<longrightarrow> offset h div 8 < capacity p" by simp
  with h sz have P: "Pop sz self p h =
     (if bit b j
      then (Inr (),
            p\<lparr>poolBlock := (poolBlock p)[i := b XOR push_bit j 1],
              sizeP := u64 (sizeP p + 2 ^ 64 - 1)\<rparr>,
            OffsetPtr_default)
      else (Inr (), p, h))"
    using ld by (simp add: Pop_in_range i_def [symmetric] j_def [symmetric] del: push_bit_of_1)
  have lb: "lut_bit (poolBlock p) (offset h) = bit b j" by (simp add: lut_bit_def i_def j_def b_def)
  show ?thesis
  proof (cases "bit b j")
    case False
    with P lb lay inv show ?thesis by simp
  next
    case True
    define p' where "p' = p\<lparr>poolBlock := (poolBlock p)[i := b XOR push_bit j 1],
              sizeP := u64 (sizeP p + 2 ^ 64 - 1)\<rparr>"
    have lay': "pool_layout p'" using lay by (simp add: pool_layout_def p'_def)
    have bm: "bitmap p' = (bitmap p)[i := bitmap p ! i XOR push_bit j 1]"
      using i8 by (simp add: bitmap_def p'_def b_def take_update_swap del: push_bit_of_1)
    have il': "i < length (bitmap p)" using i8 layout_facts(5) [OF lay] by simp
    have bb: "bitmap p ! i = b" using i8 by (simp add: bitmap_nth b_def)
    have "popcount (bitmap p') + popcount8 (bitmap p ! i)
          = popcount (bitmap p) + popcount8 (bitmap p ! i XOR push_bit j 1)"
      unfolding bm using il' by (rule popcount_update)
    moreover have "popcount8 (b XOR push_bit j 1) + 1 = popcount8 b"
      using True by (rule popcount8_flip)
    ultimately have pc: "popcount (bitmap p') + 1 = popcount (bitmap p)" by (simp add: bb)
    with inv have pos: "0 < sizeP p" "sizeP p = popcount (bitmap p') + 1"
      by (simp_all add: size_is_popcount_def)
    from size_le_capacity [OF lay inv] layout_facts(4) [OF lay] have "sizeP p < 2 ^ 64" by simp
    with pos(1) have "u64 (sizeP p + 2 ^ 64 - 1) = sizeP p - 1" by (rule u64_dec)
    then have sp: "sizeP p' = sizeP p - 1" by (simp add: p'_def)
    with pos have inv': "size_is_popcount p'" by (simp add: size_is_popcount_def)
    have bits: "\<forall>k < capacity p. lut_bit (poolBlock p') k
                      = (k \<noteq> offset h \<and> lut_bit (poolBlock p) k)"
    proof (intro allI impI)
      fix k assume "k < capacity p"
      have "lut_bit (poolBlock p') k
            = (if k = i * 8 + j then \<not> lut_bit (poolBlock p) k else lut_bit (poolBlock p) k)"
        unfolding p'_def b_def using lut_bit_flip [OF il j8, of k] by simp
      with lb True idx show "lut_bit (poolBlock p') k
                      = (k \<noteq> offset h \<and> lut_bit (poolBlock p) k)" by auto
    qed
    from P True have "Pop sz self p h = (Inr (), p', OffsetPtr_default)" by (simp add: p'_def)
    moreover have "capacity p' = capacity p" by (simp add: p'_def)
    moreover from sp pos(1) have "sizeP p' + 1 = sizeP p" by simp
    ultimately show ?thesis using lay' inv' bits lb True
      by (simp add: OffsetPtr_default_def)
  qed
qed

subsection \<open>The traversals\<close>

lemma shift_map:
  "map (\<lambda>k. a + (k - i) * sz) (filter P [Suc i..<n])
   = map (\<lambda>k. a + sz + (k - Suc i) * sz) (filter P [Suc i..<n])"
proof (rule map_cong)
  show "filter P [Suc i..<n] = filter P [Suc i..<n]" by simp
next
  fix k assume "k \<in> set (filter P [Suc i..<n])"
  then have "Suc i \<le> k" by simp
  then have "k - i = Suc (k - Suc i)" by simp
  then show "a + (k - i) * sz = a + sz + (k - Suc i) * sz" by simp
qed

lemma ForAllActive_loop_eq:
  assumes "0 < Size" "\<forall>i < capacity p. (i div 8) mod Size < length (poolBlock p)"
  shows "ForAllActive_loop Size sz p f i a s
         = Inr (fold f (map (\<lambda>k. a + (k - i) * sz) (filter (active Size p) [i..<capacity p])) s)"
proof (induction "capacity p - i" arbitrary: i a s)
  case 0
  then have "\<not> i < capacity p" by simp
  then show ?case by (simp add: ForAllActive_loop.simps [of Size sz p f i a s])
next
  case (Suc n)
  then have lt: "i < capacity p" and n: "n = capacity p - Suc i" by simp_all
  define pBox where "pBox = (i div 8) mod Size"
  from assms(2) lt have "pBox < length (poolBlock p)" by (simp add: pBox_def)
  then have ld: "load (poolBlock p) pBox = Some (poolBlock p ! pBox)" by (simp add: load_def)
  have step: "ForAllActive_loop Size sz p f i a s
        = ForAllActive_loop Size sz p f (Suc i) (a + sz) (if active Size p i then f a s else s)"
  proof (cases "i = 0")
    case True
    with ld have "load (poolBlock p) 0 = Some (poolBlock p ! 0)" by (simp add: pBox_def)
    with True lt show ?thesis
      by (subst ForAllActive_loop.simps) (simp add: flag_test0 active_def)
  next
    case False
    with lt assms(1) ld show ?thesis
      by (subst ForAllActive_loop.simps)
        (simp add: flag_test_exp active_def pBox_def [symmetric])
  qed
  have l: "[i..<capacity p] = i # [Suc i..<capacity p]" using lt by (rule upt_conv_Cons)
  show ?case
    unfolding step Suc.hyps(1) [OF n] l
    by (simp add: shift_map [of a i sz])
qed

lemma ForAllFast_loop_eq:
  "ForAllFast_loop sz p f i a s = fold f (map (\<lambda>k. a + (k - i) * sz) [i..<capacity p]) s"
proof (induction "capacity p - i" arbitrary: i a s)
  case 0
  then have "\<not> i < capacity p" by simp
  then show ?case by (simp add: ForAllFast_loop.simps [of sz p f i a s])
next
  case (Suc n)
  then have lt: "i < capacity p" and n: "n = capacity p - Suc i" by simp_all
  have step: "ForAllFast_loop sz p f i a s = ForAllFast_loop sz p f (Suc i) (a + sz) (f a s)"
    using lt by (subst ForAllFast_loop.simps) simp
  have l: "[i..<capacity p] = i # [Suc i..<capacity p]" using lt by (rule upt_conv_Cons)
  have sh: "map (\<lambda>k. a + (k - i) * sz) [Suc i..<capacity p]
            = map (\<lambda>k. a + sz + (k - Suc i) * sz) [Suc i..<capacity p]"
    using shift_map [of a i sz "\<lambda>k. True" "capacity p"] by simp
  show ?case
    unfolding step Suc.hyps(1) [OF n] l by (simp add: sh)
qed

lemma fold_record_visit: "fold record_visit xs v = v @ xs"
  by (induction xs arbitrary: v) (simp_all add: record_visit_def)

lemma ForAllActive_visits:
  assumes "0 < Size" "\<forall>i < capacity p. (i div 8) mod Size < length (poolBlock p)"
  shows "ForAllActive Size sz p record_visit []
         = Inr (map (\<lambda>k. pMem p + k * sz) (filter (active Size p) [0..<capacity p]))"
  using ForAllActive_loop_eq [OF assms, of sz record_visit 0 "pMem p" "[]"]
  by (simp add: ForAllActive_def fold_record_visit)

lemma ForAllFast_visits:
  "ForAllFast sz p record_visit [] = map (\<lambda>k. pMem p + k * sz) [0..<capacity p]"
  using ForAllFast_loop_eq [of sz p record_visit 0 "pMem p" "[]"]
  by (simp add: ForAllFast_def fold_record_visit)

subsection \<open>Packed pools\<close>

lemma Get_times_add:
  "Get_times (m + n) R T self p = Get_times n R T self (Get_times m R T self p)"
  by (induction m arbitrary: p) simp_all

lemma packed_Get_fill:
  assumes pk: "packed p" and T: "length T = poolItemSize p" and lt: "sizeP p < capacity p"
  shows "Get R T self p = (Inr (OffsetPtr_make self (sizeP p)), snd (Get R T self p))"
    and "packed (snd (Get R T self p))" and "sizeP (snd (Get R T self p)) = sizeP p + 1"
    and "capacity (snd (Get R T self p)) = capacity p"
    and "poolItemSize (snd (Get R T self p)) = poolItemSize p"
proof -
  from pk have lay: "pool_layout p" and inv: "size_is_popcount p"
    and bits: "\<And>k. k < capacity p \<Longrightarrow> lut_bit (poolBlock p) k = (k < sizeP p)"
    by (simp_all add: packed_def)
  from bits [OF lt] have cl: "\<not> lut_bit (poolBlock p) (sizeP p)" by simp
  from Get_no_growth_step [OF lay inv T lt cl, of R self] obtain s p' where
    S: "Get R T self p = (Inr (OffsetPtr_make self s), p')"
      "s \<le> sizeP p" "\<not> lut_bit (poolBlock p) s"
      "pool_layout p'" "size_is_popcount p'"
      "capacity p' = capacity p" "poolItemSize p' = poolItemSize p"
      "sizeP p' = sizeP p + 1"
      "\<forall>k' < capacity p. lut_bit (poolBlock p') k' = (k' = s \<or> lut_bit (poolBlock p) k')"
    by blast
  from S(2) lt have "s < capacity p" by simp
  from bits [OF this] S(3) have "\<not> s < sizeP p" by simp
  with S(2) have s: "s = sizeP p" by simp
  have "\<forall>k < capacity p'. lut_bit (poolBlock p') k = (k < sizeP p')"
  proof (intro allI impI)
    fix k assume "k < capacity p'"
    with S(6) have k: "k < capacity p" by simp
    with S(9) bits [OF k] s S(8) show "lut_bit (poolBlock p') k = (k < sizeP p')" by auto
  qed
  with S(4,5) have pk': "packed p'" by (simp add: packed_def)
  from S(1) s show "Get R T self p = (Inr (OffsetPtr_make self (sizeP p)), snd (Get R T self p))"
    by simp
  from S(1) pk' show "packed (snd (Get R T self p))" by simp
  from S(1,8) show "sizeP (snd (Get R T self p)) = sizeP p + 1" by simp
  from S(1,6) show "capacity (snd (Get R T self p)) = capacity p" by simp
  from S(1,7) show "poolItemSize (snd (Get R T self p)) = poolItemSize p" by simp
qed

lemma packed_Get_grow:
  assumes pk: "packed p" and T: "length T = poolItemSize p" and full: "sizeP p = capacity p"
    and pos: "0 < capacity p" and small: "2 * length (poolBlock p) < 2 ^ 64"
  shows "packed (snd (Get True T self p))" and "sizeP (snd (Get True T self p)) = sizeP p + 1"
    and "capacity (snd (Get True T self p)) = 2 * capacity p"
    and "poolItemSize (snd (Get True T self p)) = poolItemSize p"
proof -
  from pk have lay: "pool_layout p" and inv: "size_is_popcount p" by (simp_all add: packed_def)
  from Get_growth_step [OF lay inv T full pos small, of self] obtain p' where
    S: "Get True T self p = (Inr (OffsetPtr_make self (capacity p)), p')"
      "pool_layout p'" "size_is_popcount p'" "capacity p' = 2 * capacity p"
      "poolItemSize p' = poolItemSize p" "sizeP p' = sizeP p + 1"
      "\<forall>k < 2 * capacity p. lut_bit (poolBlock p') k = (k \<le> capacity p)"
    by blast
  have "\<forall>k < capacity p'. lut_bit (poolBlock p') k = (k < sizeP p')"
    using S(4,6,7) full by auto
  with S(2,3) have "packed p'" by (simp add: packed_def)
  with S(1) show "packed (snd (Get True T self p))" by simp
  from S(1,6) show "sizeP (snd (Get True T self p)) = sizeP p + 1" by simp
  from S(1,4) show "capacity (snd (Get True T self p)) = 2 * capacity p" by simp
  from S(1,5) show "poolItemSize (snd (Get True T self p)) = poolItemSize p" by simp
qed

lemma packed_fill:
  assumes "packed p" "length T = poolItemSize p" "sizeP p + m \<le> capacity p"
  shows "packed (Get_times m R T self p) \<and> sizeP (Get_times m R T self p) = sizeP p + m
     \<and> capacity (Get_times m R T self p) = capacity p
     \<and> poolItemSize (Get_times m R T self p) = poolItemSize p"
  using assms
proof (induction m arbitrary: p)
  case 0
  then show ?case by simp
next
  case (Suc m)
  from Suc.prems(3) have lt: "sizeP p < capacity p" by simp
  note G = packed_Get_fill [OF Suc.prems(1,2) lt, of R self]
  from G(3,4) Suc.prems(3) have b: "sizeP (snd (Get R T self p)) + m \<le> capacity (snd (Get R T self p))"
    by simp
  from G(5) Suc.prems(2) have T': "length T = poolItemSize (snd (Get R T self p))" by simp
  from Suc.IH [OF G(2) T' b] G(3,4,5) show ?case by simp
qed

lemma packed_double:
  assumes pk: "packed p" and T: "length T = poolItemSize p" and full: "sizeP p = capacity p"
    and pos: "0 < capacity p" and small: "2 * length (poolBlock p) < 2 ^ 64"
  shows "packed (Get_times (capacity p) True T self p)
     \<and> sizeP (Get_times (capacity p) True T self p) = 2 * capacity p
     \<and> capacity (Get_times (capacity p) True T self p) = 2 * capacity p
     \<and> poolItemSize (Get_times (capacity p) True T self p) = poolItemSize p"
proof -
  from pos obtain m where m: "capacity p = Suc m" by (cases "capacity p") simp_all
  note G = packed_Get_grow [OF pk T full pos small, of self]
  from G(2,3) full m have b: "sizeP (snd (Get True T self p)) + m \<le> capacity (snd (Get True T self p))"
    by simp
  from G(4) T have T': "length T = poolItemSize (snd (Get True T self p))" by simp
  from packed_fill [OF G(1) T' b, of True self] G(2,3,4) full m show ?thesis by simp
qed

lemma fresh_packed:
  assumes "Size mod 8 = 0" "0 < length T" "Size div 8 + length T * Size < 2 ^ 64"
  shows "packed (FixedTypeAllocator_init T Size)"
    and "sizeP (FixedTypeAllocator_init T Size) = 0"
    and "capacity (FixedTypeAllocator_init T Size) = Size"
    and "poolItemSize (FixedTypeAllocator_init T Size) = length T"
proof -
  note I = Pool_init_inv [OF assms]
  show c: "capacity (FixedTypeAllocator_init T Size) = Size"
    by (simp add: FixedTypeAllocator_init_def Pool_init_def)
  show z: "sizeP (FixedTypeAllocator_init T Size) = 0"
    by (simp add: FixedTypeAllocator_init_def Pool_init_def)
  show "poolItemSize (FixedTypeAllocator_init T Size) = length T"
    by (simp add: FixedTypeAllocator_init_def Pool_init_def)
  from I(1,2,4) c z show "packed (FixedTypeAllocator_init T Size)"
    by (simp add: packed_def FixedTypeAllocator_init_def)
qed

lemma layout_length_1:
  assumes "pool_layout p" "poolItemSize p = 1"
  shows "length (poolBlock p) = capacity p div 8 + capacity p"
  using assms by (simp add: pool_layout_def)

lemma packed_stage:
  assumes pk: "packed p" and T: "length T = poolItemSize p" and one: "poolItemSize p = 1"
    and full: "sizeP p = c" "capacity p = c" and c: "0 < c" "c < 2 ^ 60"
  shows "packed (Get_times c True T self p)"
    and "sizeP (Get_times c True T self p) = 2 * c"
    and "capacity (Get_times c True T self p) = 2 * c"
    and "poolItemSize (Get_times c True T self p) = 1"
proof -
  from pk have lay: "pool_layout p" by (simp add: packed_def)
  have "c div 8 \<le> c" by simp
  with layout_length_1 [OF lay one] full(2) have "length (poolBlock p) \<le> 2 * c" by simp
  with c(2) have small: "2 * length (poolBlock p) < 2 ^ 64" by simp
  from full have f: "sizeP p = capacity p" by simp
  from c(1) full(2) have pos: "0 < capacity p" by simp
  from packed_double [OF pk T f pos small, of self] full(2) one
  show "packed (Get_times c True T self p)"
    and "sizeP (Get_times c True T self p) = 2 * c"
    and "capacity (Get_times c True T self p) = 2 * c"
    and "poolItemSize (Get_times c True T self p) = 1"
    by simp_all
qed

lemma Get_times_65:
  "Get_times 65 R T self p
   = Get_times 1 R T self (Get_times 32 R T self (Get_times 16 R T self
       (Get_times 8 R T self (Get_times 8 R T self p))))"
proof -
  have "(65 :: nat) = 8 + 8 + 16 + 32 + 1" by simp
  then show ?thesis by (simp only: Get_times_add)
qed

lemma after_65_allocations:
  "packed (Get_times 65 True [0] self (FixedTypeAllocator_init [0] 8))"
  "sizeP (Get_times 65 True [0] self (FixedTypeAllocator_init [0] 8)) = 65"
  "capacity (Get_times 65 True [0] self (FixedTypeAllocator_init [0] 8)) = 128"
  "poolItemSize (Get_times 65 True [0] self (FixedTypeAllocator_init [0] 8)) = 1"
proof -
  define T :: Type where "T = [0]"
  define P0 where "P0 = FixedTypeAllocator_init T 8"
  define Q8 where "Q8 = Get_times 8 True T self P0"
  define Q16 where "Q16 = Get_times 8 True T self Q8"
  define Q32 where "Q32 = Get_times 16 True T self Q16"
  define Q64 where "Q64 = Get_times 32 True T self Q32"
  have lT: "length T = 1" by (simp add: T_def)
  have F: "packed P0" "sizeP P0 = 0" "capacity P0 = 8" "poolItemSize P0 = 1"
    unfolding P0_def using fresh_packed [of 8 T] lT by simp_all
  have T0: "length T = poolItemSize P0" using F(4) lT by simp
  have "sizeP P0 + 8 \<le> capacity P0" using F(2,3) by simp
  from packed_fill [OF F(1) T0 this, of True self] F(2,3,4)
  have A: "packed Q8" "sizeP Q8 = 8" "capacity Q8 = 8" "poolItemSize Q8 = 1"
    by (simp_all add: Q8_def)
  have T8: "length T = poolItemSize Q8" using A(4) lT by simp
  from packed_stage [OF A(1) T8 A(4) A(2) A(3), of self]
  have B: "packed Q16" "sizeP Q16 = 16" "capacity Q16 = 16" "poolItemSize Q16 = 1"
    by (simp_all add: Q16_def)
  have T16: "length T = poolItemSize Q16" using B(4) lT by simp
  from packed_stage [OF B(1) T16 B(4) B(2) B(3), of self]
  have C: "packed Q32" "sizeP Q32 = 32" "capacity Q32 = 32" "poolItemSize Q32 = 1"
    by (simp_all add: Q32_def)
  have T32: "length T = poolItemSize Q32" using C(4) lT by simp
  from packed_stage [OF C(1) T32 C(4) C(2) C(3), of self]
  have D: "packed Q64" "sizeP Q64 = 64" "capacity Q64 = 64" "poolItemSize Q64 = 1"
    by (simp_all add: Q64_def)
  have T64: "length T = poolItemSize Q64" using D(4) lT by simp
  from D(1) have lay: "pool_layout Q64" by (simp add: packed_def)
  from layout_length_1 [OF lay D(4)] D(3) have small: "2 * length (poolBlock Q64) < 2 ^ 64"
    by simp
  have f: "sizeP Q64 = capacity Q64" using D(2,3) by simp
  have pos: "0 < capacity Q64" using D(3) by simp
  note G = packed_Get_grow [OF D(1) T64 f pos small, of self]
  have e: "Get_times 65 True [0] self (FixedTypeAllocator_init [0] 8) = snd (Get True T self Q64)"
    unfolding Get_times_65 by (simp add: Q64_def Q32_def Q16_def Q8_def P0_def T_def)
  from G(1) show "packed (Get_times 65 True [0] self (FixedTypeAllocator_init [0] 8))"
    unfolding e .
  from G(2) D(2) show "sizeP (Get_times 65 True [0] self (FixedTypeAllocator_init [0] 8)) = 65"
    unfolding e by simp
  from G(3) D(3) show "capacity (Get_times 65 True [0] self (FixedTypeAllocator_init [0] 8)) = 128"
    unfolding e by simp
  from G(4) D(4) show "poolItemSize (Get_times 65 True [0] self (FixedTypeAllocator_init [0] 8)) = 1"
    unfolding e by simp
qed

subsection \<open>Traversals of packed and of full pools\<close>

lemma active_lut_bit:
  "active Size p i = lut_bit (poolBlock p) (((i div 8) mod Size) * 8 + i mod 8)"
  by (simp add: active_def lut_bit_def)

lemma mod_le_self: "(x :: nat) mod n \<le> x"
  by simp

text \<open>
  While the capacity is at most eight times \<open>Size\<close>, the active traversal visits the
  live slots in ascending order.
\<close>

lemma ForAllActive_small:
  assumes "0 < Size" "pool_layout p" "capacity p \<le> 8 * Size"
  shows "ForAllActive Size sz p record_visit []
         = Inr (map (\<lambda>k. pMem p + k * sz) (filter (lut_bit (poolBlock p)) [0..<capacity p]))"
proof -
  have m: "\<And>i. i < capacity p \<Longrightarrow> (i div 8) mod Size = i div 8"
  proof -
    fix i assume "i < capacity p"
    with assms(3) have "i < Size * 8" by simp
    then have "i div 8 < Size" by (simp add: div_less_iff_less_mult)
    then show "(i div 8) mod Size = i div 8" by simp
  qed
  have b: "\<forall>i < capacity p. (i div 8) mod Size < length (poolBlock p)"
  proof (intro allI impI)
    fix i assume i: "i < capacity p"
    from slot_div8 [OF assms(2) i] layout_facts(3) [OF assms(2)] m [OF i]
    show "(i div 8) mod Size < length (poolBlock p)" by simp
  qed
  have "filter (active Size p) [0..<capacity p] = filter (lut_bit (poolBlock p)) [0..<capacity p]"
  proof (rule filter_cong)
    show "[0..<capacity p] = [0..<capacity p]" by simp
  next
    fix i assume "i \<in> set [0..<capacity p]"
    then have "i < capacity p" by simp
    from m [OF this] show "active Size p i = lut_bit (poolBlock p) i"
      by (simp add: active_def lut_bit_def)
  qed
  with ForAllActive_visits [OF assms(1) b, of sz] show ?thesis by simp
qed

text \<open>On a full pool the active and the fast traversal visit the same addresses.\<close>

lemma ForAll_full_agree:
  assumes "0 < Size" "pool_layout p" "size_is_popcount p" "capacity p \<le> sizeP p"
  shows "ForAllActive Size sz p record_visit [] = Inr (ForAllFast sz p record_visit [])"
proof -
  note fb = full_bits [OF assms(2,3,4)]
  have idx: "\<And>i. i < capacity p \<Longrightarrow> ((i div 8) mod Size) * 8 + i mod 8 < capacity p"
  proof -
    fix i assume i: "i < capacity p"
    have "(i div 8) mod Size \<le> i div 8" by (rule mod_le_self)
    from this slot_div8 [OF assms(2) i] have "(i div 8) mod Size < capacity p div 8"
      by (rule le_less_trans)
    then have "((i div 8) mod Size) * 8 + i mod 8 < capacity p div 8 * 8" by simp
    with layout_facts(1) [OF assms(2)] show "((i div 8) mod Size) * 8 + i mod 8 < capacity p"
      by simp
  qed
  have b: "\<forall>i < capacity p. (i div 8) mod Size < length (poolBlock p)"
  proof (intro allI impI)
    fix i assume i: "i < capacity p"
    have "(i div 8) mod Size \<le> i div 8" by (rule mod_le_self)
    from this slot_div8 [OF assms(2) i] have "(i div 8) mod Size < capacity p div 8"
      by (rule le_less_trans)
    from this layout_facts(3) [OF assms(2)]
    show "(i div 8) mod Size < length (poolBlock p)" by (rule less_le_trans)
  qed
  have "filter (active Size p) [0..<capacity p] = [0..<capacity p]"
  proof (rule filter_True, rule ballI)
    fix i assume "i \<in> set [0..<capacity p]"
    then have "i < capacity p" by simp
    from fb idx [OF this] show "active Size p i" by (simp add: active_lut_bit)
  qed
  with ForAllActive_visits [OF assms(1) b, of sz] show ?thesis
    by (simp add: ForAllFast_visits)
qed

lemma filter_less_upt:
  assumes "n \<le> m"
  shows "filter (\<lambda>k. k < n) [0..<m] = [0..<n]"
proof -
  from assms have "[0..<m] = [0..<n] @ [n..<m]"
    using upt_add_eq_append [of 0 n "m - n"] by simp
  then show ?thesis by simp
qed

subsection \<open>Handles of the general-purpose allocator\<close>

lemma New_resolve_addresses:
  assumes "New R sz g = (Inr h, g1)"
  shows "\<exists>c p. ResolvePool (m_SubPoolSizes g) sz = Inr c \<and> m_Pools g1 c = Some p
           \<and> pContainer h = Some c
           \<and> Resolve sz c p h = Some (pMem p + offset h * sz)
           \<and> Resolve (poolItemSize p) c p h = Some (pMem p + offset h * poolItemSize p)"
  using assms
  by (auto simp: New_def OffsetPtr_make_def Resolve_def Pool_Internal_def
      split: sum.splits option.splits prod.splits)

subsection \<open>Get below the capacity, and the Pop that undoes it\<close>

lemma Get_scan_bits:
  assumes lay: "pool_layout p" and T: "length T \<le> poolItemSize p"
    and sc: "scan_lut (poolBlock p) (capacity p div 8) 0 = Inr (Some (i, j))"
  shows "\<exists>p'. Get_scan T self p = (Inr (OffsetPtr_make self (i * 8 + j)), p')
      \<and> pool_layout p'
      \<and> capacity p' = capacity p \<and> pMem p' = pMem p \<and> poolItemSize p' = poolItemSize p
      \<and> sizeP p' = u64 (sizeP p + 1)
      \<and> bitmap p' = (bitmap p)[i := bitmap p ! i OR push_bit j 1]
      \<and> (\<forall>k < capacity p. lut_bit (poolBlock p') k = (k = i * 8 + j \<or> lut_bit (poolBlock p) k))"
proof -
  define s where "s = i * 8 + j"
  define a where "a = pMem p + s * length T"
  define m1 where "m1 = (poolBlock p)[i := poolBlock p ! i OR push_bit j 1]"
  define c8 where "c8 = capacity p div 8"
  from Get_scan_claims [OF lay T sc, of self] obtain m where
    G: "Get_scan T self p = (Inr (OffsetPtr_make self s), p\<lparr>poolBlock := m, sizeP := u64 (sizeP p + 1)\<rparr>)"
    and lm: "length m = length (poolBlock p)"
    and nth: "\<And>k. k < length m \<Longrightarrow>
                m ! k = (if a \<le> k \<and> k < a + length T then T ! (k - a) else m1 ! k)"
    unfolding s_def a_def m1_def by blast
  define p' where "p' = p\<lparr>poolBlock := m, sizeP := u64 (sizeP p + 1)\<rparr>"
  from scan_lut_Some [OF sc] have i: "i < c8" "i < length (poolBlock p)" "j < 8"
    by (auto simp: c8_def)
  have pm: "pMem p = c8" using layout_facts(6) [OF lay] by (simp add: c8_def)
  have c8len: "c8 \<le> length (poolBlock p)" using layout_facts(3) [OF lay] by (simp add: c8_def)
  have lay': "pool_layout p'" using lay lm by (simp add: pool_layout_def p'_def)
  have low: "\<And>k. k < c8 \<Longrightarrow> m ! k = m1 ! k"
  proof -
    fix k assume k: "k < c8"
    with c8len lm have "k < length m" by simp
    moreover from k pm have "\<not> a \<le> k" by (simp add: a_def)
    ultimately show "m ! k = m1 ! k" using nth by simp
  qed
  have B: "bitmap p' = (bitmap p)[i := bitmap p ! i OR push_bit j 1]"
  proof (rule nth_equalityI)
    show "length (bitmap p') = length ((bitmap p)[i := bitmap p ! i OR push_bit j 1])"
      using c8len lm by (simp add: bitmap_def p'_def)
  next
    fix k assume "k < length (bitmap p')"
    with c8len lm have k: "k < c8" by (simp add: bitmap_def p'_def c8_def)
    with c8len lm have "bitmap p' ! k = m ! k" by (simp add: bitmap_def p'_def c8_def)
    also have "\<dots> = m1 ! k" using k by (rule low)
    also have "\<dots> = (bitmap p)[i := bitmap p ! i OR push_bit j 1] ! k"
      using k i c8len by (simp add: m1_def bitmap_def c8_def nth_list_update del: push_bit_of_1)
    finally show "bitmap p' ! k = (bitmap p)[i := bitmap p ! i OR push_bit j 1] ! k" .
  qed
  have L: "\<forall>k < capacity p. lut_bit (poolBlock p') k = (k = s \<or> lut_bit (poolBlock p) k)"
  proof (intro allI impI)
    fix k assume "k < capacity p"
    with slot_div8 [OF lay] have "k div 8 < c8" by (simp add: c8_def)
    then have "lut_bit m k = lut_bit m1 k" by (simp add: lut_bit_def low)
    also have "\<dots> = (k = s \<or> lut_bit (poolBlock p) k)"
      unfolding m1_def s_def using i(2,3) by (rule lut_bit_set)
    finally show "lut_bit (poolBlock p') k = (k = s \<or> lut_bit (poolBlock p) k)"
      by (simp add: p'_def)
  qed
  have "Get_scan T self p = (Inr (OffsetPtr_make self s), p')" using G by (simp add: p'_def)
  moreover have "capacity p' = capacity p \<and> pMem p' = pMem p \<and> poolItemSize p' = poolItemSize p
      \<and> sizeP p' = u64 (sizeP p + 1)"
    by (simp add: p'_def)
  ultimately show ?thesis using lay' B L unfolding s_def by blast
qed

lemma Get_is_scan:
  assumes "pool_layout p" "sizeP p < capacity p"
  shows "Get R T self p = Get_scan T self p" and "u64 (sizeP p + 1) = sizeP p + 1"
proof -
  from assms layout_facts(4) [OF assms(1)] show u: "u64 (sizeP p + 1) = sizeP p + 1"
    by (simp add: u64_id)
  with assms(2) show "Get R T self p = Get_scan T self p" by (simp add: Get_eq)
qed

text \<open>
  \<open>Get\<close> on a pool whose size is below its capacity: the test of \<^verbatim>\<open>Get\<close> is on the
  size alone.
\<close>

lemma Get_below_capacity:
  assumes lay: "pool_layout p" and lt: "sizeP p < capacity p" and T: "length T = poolItemSize p"
    and k: "k < capacity p" "\<not> lut_bit (poolBlock p) k"
  shows "\<exists>s p'. Get R T self p = (Inr (OffsetPtr_make self s), p')
      \<and> s \<le> k \<and> \<not> lut_bit (poolBlock p) s \<and> (\<forall>s' < s. lut_bit (poolBlock p) s')
      \<and> capacity p' = capacity p \<and> sizeP p' = sizeP p + 1
      \<and> (\<forall>k' < capacity p. lut_bit (poolBlock p') k' = (k' = s \<or> lut_bit (poolBlock p) k'))
      \<and> read_object (length T) self p' (OffsetPtr_make self s) = Some T
      \<and> (\<forall>s' < capacity p. s' \<noteq> s \<longrightarrow>
            read_object (length T) self p' (OffsetPtr_make self s')
            = read_object (length T) self p (OffsetPtr_make self s'))"
proof -
  note G = Get_is_scan(1) [OF lay lt, of R T self] Get_is_scan(2) [OF lay lt]
  from scan_finds_first_free [OF lay k] obtain i j where
    sc: "scan_lut (poolBlock p) (capacity p div 8) 0 = Inr (Some (i, j))"
    and first: "i * 8 + j \<le> k" "\<not> lut_bit (poolBlock p) (i * 8 + j)"
      "\<forall>s < i * 8 + j. lut_bit (poolBlock p) s" by blast
  from Get_scan_effect [OF lay T sc, of self] obtain p' where
    E: "Get_scan T self p = (Inr (OffsetPtr_make self (i * 8 + j)), p')"
      "capacity p' = capacity p" "sizeP p' = u64 (sizeP p + 1)"
      "\<forall>k < capacity p. lut_bit (poolBlock p') k = (k = i * 8 + j \<or> lut_bit (poolBlock p) k)"
      "read_object (length T) self p' (OffsetPtr_make self (i * 8 + j)) = Some T"
      "\<forall>s' < capacity p. s' \<noteq> i * 8 + j \<longrightarrow>
            read_object (length T) self p' (OffsetPtr_make self s')
            = read_object (length T) self p (OffsetPtr_make self s')"
    by blast
  from G(1) E(1) have "Get R T self p = (Inr (OffsetPtr_make self (i * 8 + j)), p')" by simp
  moreover from E(3) G(2) have "sizeP p' = sizeP p + 1" by simp
  ultimately show ?thesis using first E(2,4,5,6) by blast
qed

lemma flag_restore:
  assumes "\<not> bit (b :: u8) j"
  shows "(b OR push_bit j 1) XOR push_bit j 1 = b"
proof (rule bit_eqI)
  fix k
  from assms show "bit ((b OR push_bit j 1) XOR push_bit j 1) k = bit b k"
    by (auto simp add: bit_flip_flag bit_set_flag simp del: push_bit_of_1)
qed

lemma u64_inc_dec:
  assumes "n + 1 < 2 ^ 64"
  shows "u64 (u64 (n + 1) + 2 ^ 64 - 1) = n"
proof -
  from assms have "u64 (n + 1) = n + 1" by (simp add: u64_id)
  moreover from assms have "u64 (n + 1 + 2 ^ 64 - 1) = n + 1 - 1"
    by (intro u64_dec) simp_all
  ultimately show ?thesis by simp
qed

text \<open>A \<open>Get\<close> below the capacity followed by the \<open>Pop\<close> of its handle, for any stride.\<close>

lemma Get_then_Pop:
  assumes lay: "pool_layout p" and lt: "sizeP p < capacity p"
    and T: "length T \<le> poolItemSize p" and sz: "0 < sz"
    and k: "k < capacity p" "\<not> lut_bit (poolBlock p) k"
  shows "\<exists>s p1 p2. Get R T self p = (Inr (OffsetPtr_make self s), p1)
      \<and> s \<le> k \<and> \<not> lut_bit (poolBlock p) s \<and> (\<forall>s' < s. lut_bit (poolBlock p) s')
      \<and> lut_bit (poolBlock p1) s \<and> sizeP p1 = sizeP p + 1
      \<and> Pop sz self p1 (OffsetPtr_make self s) = (Inr (), p2, OffsetPtr_default)
      \<and> \<not> lut_bit (poolBlock p2) s \<and> bitmap p2 = bitmap p \<and> sizeP p2 = sizeP p
      \<and> capacity p2 = capacity p"
proof -
  note G = Get_is_scan(1) [OF lay lt, of R T self] Get_is_scan(2) [OF lay lt]
  from scan_finds_first_free [OF lay k] obtain i j where
    sc: "scan_lut (poolBlock p) (capacity p div 8) 0 = Inr (Some (i, j))"
    and first: "i * 8 + j \<le> k" "\<not> lut_bit (poolBlock p) (i * 8 + j)"
      "\<forall>s < i * 8 + j. lut_bit (poolBlock p) s" by blast
  define s where "s = i * 8 + j"
  from Get_scan_bits [OF lay T sc, of self] obtain p1 where
    E: "Get_scan T self p = (Inr (OffsetPtr_make self s), p1)" "pool_layout p1"
      "capacity p1 = capacity p" "sizeP p1 = u64 (sizeP p + 1)"
      "bitmap p1 = (bitmap p)[i := bitmap p ! i OR push_bit j 1]"
      "\<forall>k < capacity p. lut_bit (poolBlock p1) k = (k = s \<or> lut_bit (poolBlock p) k)"
    unfolding s_def by blast
  from scan_lut_Some [OF sc] have ij: "i < capacity p div 8" "j < 8" "\<not> bit (poolBlock p ! i) j"
    by auto
  have sd: "s div 8 = i" "s mod 8 = j" using ij(2) by (simp_all add: s_def)
  from first(1) k(1) have sc1: "s < capacity p1" by (simp add: s_def E(3))
  have il: "i < length (bitmap p)" using ij(1) layout_facts(5) [OF lay] by simp
  have b0: "\<not> bit (bitmap p ! i) j" using ij(1,3) by (simp add: bitmap_nth)
  have i1: "i < capacity p1 div 8" using ij(1) E(3) by simp
  from i1 layout_facts(3) [OF E(2)] have il1: "i < length (poolBlock p1)" by simp
  have b1: "poolBlock p1 ! i = bitmap p ! i OR push_bit j 1"
    using bitmap_nth [OF i1] E(5) il by (simp del: push_bit_of_1)
  have set1: "lut_bit (poolBlock p1) s" using E(6) sc1 E(3) by simp
  then have bit1: "bit (poolBlock p1 ! i) j" by (simp add: lut_bit_def sd)
  have ld: "load (poolBlock p1) i = Some (poolBlock p1 ! i)" using il1 by (simp add: load_def)
  have "capacity p1 div 8 \<le> capacity p1" by simp
  with i1 have "i < capacity p1" by (rule less_le_trans)
  then have rng: "offset (OffsetPtr_make self s) \<noteq> 0 \<longrightarrow>
      offset (OffsetPtr_make self s) div 8 < capacity p1"
    by (simp add: OffsetPtr_make_def sd)
  define p2 where "p2 = p1\<lparr>poolBlock := (poolBlock p1)[i := poolBlock p1 ! i XOR push_bit j 1],
                             sizeP := u64 (sizeP p1 + 2 ^ 64 - 1)\<rparr>"
  have P: "Pop sz self p1 (OffsetPtr_make self s) = (Inr (), p2, OffsetPtr_default)"
    using Pop_in_range [of "OffsetPtr_make self s" self p1 sz] sc1 sz rng ld bit1
    by (simp add: OffsetPtr_make_def sd p2_def del: push_bit_of_1)
  have clr: "\<not> lut_bit (poolBlock p2) s"
    using lut_bit_flip [OF il1 ij(2), of s] set1 by (simp add: p2_def s_def del: push_bit_of_1)
  have "bitmap p2 = (bitmap p1)[i := bitmap p1 ! i XOR push_bit j 1]"
    using i1 by (simp add: bitmap_def p2_def take_update_swap del: push_bit_of_1)
  also have "\<dots> = (bitmap p)[i := (bitmap p ! i OR push_bit j 1) XOR push_bit j 1]"
    using il by (simp add: E(5) del: push_bit_of_1)
  also have "\<dots> = bitmap p" using flag_restore [OF b0] by (simp del: push_bit_of_1)
  finally have bm: "bitmap p2 = bitmap p" .
  from lt layout_facts(4) [OF lay] have "sizeP p + 1 < 2 ^ 64" by simp
  then have "u64 (u64 (sizeP p + 1) + 2 ^ 64 - 1) = sizeP p" by (rule u64_inc_dec)
  then have sz2: "sizeP p2 = sizeP p" by (simp add: p2_def E(4))
  have c2: "capacity p2 = capacity p" by (simp add: p2_def E(3))
  from G(1) E(1) have "Get R T self p = (Inr (OffsetPtr_make self s), p1)" by simp
  moreover from E(4) G(2) have "sizeP p1 = sizeP p + 1" by simp
  ultimately show ?thesis using first set1 P clr bm sz2 c2 unfolding s_def by blast
qed

section \<open>Size-class routing\<close>


lemma ResolvePool_first_match:
  "ResolvePool cs t = Inr c \<Longrightarrow> \<exists>pre post. cs = pre @ c # post \<and> (\<forall>x \<in> set pre. x < t) \<and> t \<le> c"
proof (induction cs)
  case Nil
  then show ?case by simp
next
  case (Cons a cs)
  show ?case
  proof (cases "t \<le> a")
    case True
    with Cons.prems have "a = c" by simp
    with True have "a # cs = [] @ c # cs \<and> (\<forall>x \<in> set []. x < t) \<and> t \<le> c" by simp
    then show ?thesis by blast
  next
    case False
    with Cons.prems have "ResolvePool cs t = Inr c" by simp
    from Cons.IH [OF this] obtain pre post
      where "cs = pre @ c # post" "\<forall>x \<in> set pre. x < t" "t \<le> c" by blast
    with False have "a # cs = (a # pre) @ c # post \<and> (\<forall>x \<in> set (a # pre). x < t) \<and> t \<le> c"
      by simp
    then show ?thesis by blast
  qed
qed

lemma ResolvePool_least:
  assumes "sorted cs" "ResolvePool cs t = Inr c" "c' \<in> set cs" "t \<le> c'"
  shows "c \<le> c'"
proof -
  from ResolvePool_first_match [OF assms(2)] obtain pre post
    where cs: "cs = pre @ c # post" and pre: "\<forall>x \<in> set pre. x < t" by blast
  from assms(3) cs have "c' \<in> set pre \<or> c' = c \<or> c' \<in> set post" by auto
  moreover from pre assms(4) have "c' \<notin> set pre" by auto
  moreover from assms(1) cs have "\<forall>y \<in> set post. c \<le> y"
    by (simp add: sorted_append)
  ultimately show ?thesis by auto
qed

lemma ResolvePool_Inl:
  "ResolvePool cs t = Inl e \<Longrightarrow> e = BadAlloc \<and> (\<forall>c \<in> set cs. c < t)"
  by (induction cs) (auto split: if_splits)

lemma ResolvePool_exceeds:
  "\<forall>c \<in> set cs. c < t \<Longrightarrow> ResolvePool cs t = Inl BadAlloc"
  by (induction cs) auto

lemma New_class:
  assumes "New R sz g = (Inr h, g1)"
  shows "\<exists>c. ResolvePool (m_SubPoolSizes g) sz = Inr c \<and> pContainer h = Some c
           \<and> m_SubPoolSizes g1 = m_SubPoolSizes g \<and> (\<forall>k. k \<noteq> c \<longrightarrow> m_Pools g1 k = m_Pools g k)
           \<and> (\<exists>ft1. m_Pools g1 c = Some ft1)"
  using assms
  by (auto simp: New_def OffsetPtr_make_def split: sum.splits option.splits prod.splits)

lemma New_no_class:
  assumes "ResolvePool (m_SubPoolSizes g) sz = Inl e"
  shows "New R sz g = (Inl e, g)"
  using assms by (simp add: New_def)

lemma Delete_no_class:
  assumes "ResolvePool (m_SubPoolSizes g) sz = Inl e"
  shows "Delete ly sz g h = (Inl e, g, h)"
  using assms by (simp add: Delete_def)

text \<open>
  \<open>Delete\<close> is the \<open>Pop\<close> of the handle's index on the pool of the resolved class, and
  touches no other pool.
\<close>

lemma Delete_routes:
  assumes "ResolvePool (m_SubPoolSizes g) sz = Inr c" "m_Pools g c = Some ft"
  shows "fst (Delete True sz g h) = fst (Pop sz c ft \<lparr>offset = offset h, pContainer = Some c\<rparr>)"
    and "m_Pools (fst (snd (Delete True sz g h))) c
         = Some (fst (snd (Pop sz c ft \<lparr>offset = offset h, pContainer = Some c\<rparr>)))"
    and "\<forall>k. k \<noteq> c \<longrightarrow> m_Pools (fst (snd (Delete ly sz g h))) k = m_Pools g k"
    and "m_SubPoolSizes (fst (snd (Delete ly sz g h))) = m_SubPoolSizes g"
    and "Delete False sz g h = (Inl Undefined, g, h)"
  using assms
  by (auto simp: Delete_def OffsetPtr_make_def Internal_def split: sum.splits prod.splits)

lemma New_Delete_roundtrip:
  assumes cls: "ResolvePool (m_SubPoolSizes g) sz = Inr c" and pool: "m_Pools g c = Some ft"
    and lay: "pool_layout ft" and lt: "sizeP ft < capacity ft"
    and le: "sz \<le> poolItemSize ft" and pos: "0 < sz"
    and k: "k < capacity ft" "\<not> lut_bit (poolBlock ft) k"
  shows "\<exists>s g1 ft1 g2 ft2.
        New R sz g = (Inr \<lparr>offset = s, pContainer = Some c\<rparr>, g1)
      \<and> s \<le> k \<and> \<not> lut_bit (poolBlock ft) s
      \<and> m_Pools g1 c = Some ft1 \<and> lut_bit (poolBlock ft1) s \<and> sizeP ft1 = sizeP ft + 1
      \<and> Delete True sz g1 \<lparr>offset = s, pContainer = Some c\<rparr>
          = (Inr (), g2, \<lparr>offset = 0, pContainer = None\<rparr>)
      \<and> m_Pools g2 c = Some ft2 \<and> \<not> lut_bit (poolBlock ft2) s
      \<and> bitmap ft2 = bitmap ft \<and> sizeP ft2 = sizeP ft
      \<and> (\<forall>k'. k' \<noteq> c \<longrightarrow> m_Pools g2 k' = m_Pools g k')"
proof -
  have T: "length (Padding sz) \<le> poolItemSize ft" using le by (simp add: Padding_def)
  from Get_then_Pop [OF lay lt T pos k, of R c] obtain s p1 p2 where
    S: "Get R (Padding sz) c ft = (Inr (OffsetPtr_make c s), p1)"
      "s \<le> k" "\<not> lut_bit (poolBlock ft) s"
      "lut_bit (poolBlock p1) s" "sizeP p1 = sizeP ft + 1"
      "Pop sz c p1 (OffsetPtr_make c s) = (Inr (), p2, OffsetPtr_default)"
      "\<not> lut_bit (poolBlock p2) s" "bitmap p2 = bitmap ft" "sizeP p2 = sizeP ft"
    by blast
  define g1 where "g1 = g\<lparr>m_Pools := (m_Pools g)(c \<mapsto> p1)\<rparr>"
  define g2 where "g2 = g1\<lparr>m_Pools := (m_Pools g1)(c \<mapsto> p2)\<rparr>"
  have N: "New R sz g = (Inr \<lparr>offset = s, pContainer = Some c\<rparr>, g1)"
    using cls pool S(1) by (simp add: New_def g1_def OffsetPtr_make_def Internal_def)
  have c1: "ResolvePool (m_SubPoolSizes g1) sz = Inr c" using cls by (simp add: g1_def)
  have m1: "m_Pools g1 c = Some p1" by (simp add: g1_def)
  have D: "Delete True sz g1 \<lparr>offset = s, pContainer = Some c\<rparr>
          = (Inr (), g2, \<lparr>offset = 0, pContainer = None\<rparr>)"
    using c1 m1 S(6)
    by (simp add: Delete_def g2_def OffsetPtr_make_def Internal_def ZeroOut_def)
  have m2: "m_Pools g2 c = Some p2" by (simp add: g2_def)
  have oth: "\<forall>k'. k' \<noteq> c \<longrightarrow> m_Pools g2 k' = m_Pools g k'" by (simp add: g2_def g1_def)
  from N S(2,3) m1 S(4,5) D m2 S(7,8,9) oth show ?thesis by blast
qed

text \<open>
  C8. Over an ascending class list, \<open>ResolvePool\<close> returns the first class that fits,
  which is the smallest class size that is at least \<^verbatim>\<open>sizeof(Type)\<close>; it returns a
  class whenever one fits, and throws \<^verbatim>\<open>std::bad_alloc\<close> exactly when the size exceeds
  every class. With the classes 8, 16, 32, 64, 128, 256 a 20-byte type is routed to 32
  and a 300-byte type fails. \<open>Delete\<close> resolves the class that \<open>New\<close> resolves for the
  same size. When no class fits, both throw \<^verbatim>\<open>std::bad_alloc\<close> and change nothing. When
  \<open>New\<close> returns a handle, it is bound to the resolved class \<open>c\<close>, and \<open>Delete\<close> of that
  handle hands its index to the \<open>Pop\<close> of the pool of \<open>c\<close> and to no other pool. On a
  pool of class \<open>c\<close> with the constructor's layout, size below capacity and a free slot,
  \<open>New\<close> sets the bit of the lowest free slot of that pool and \<open>Delete\<close> of the handle
  clears that very bit, restores bitmap and size of that pool and unbinds the handle.
  (\<open>Delete True\<close>: under the layout assumption \<open>poolFirst\<close> of \<open>Delete\<close>.)
\<close>

theorem ResolvePool_smallest_fitting_class:
  assumes "sorted classes"
  shows "(\<forall>c. ResolvePool classes typeSize = Inr c \<longrightarrow>
            c \<in> set classes \<and> typeSize \<le> c
            \<and> (\<forall>c' \<in> set classes. typeSize \<le> c' \<longrightarrow> c \<le> c')
            \<and> (\<exists>pre post. classes = pre @ c # post \<and> (\<forall>x \<in> set pre. x < typeSize)))
         \<and> ((\<exists>c \<in> set classes. typeSize \<le> c) \<longrightarrow> (\<exists>c. ResolvePool classes typeSize = Inr c))
         \<and> ((\<forall>c \<in> set classes. c < typeSize) \<longrightarrow> ResolvePool classes typeSize = Inl BadAlloc)
         \<and> (\<forall>e. ResolvePool classes typeSize = Inl e \<longrightarrow>
               e = BadAlloc \<and> (\<forall>c \<in> set classes. c < typeSize))
         \<and> ResolvePool [8, 16, 32, 64, 128, 256] 20 = Inr 32
         \<and> ResolvePool [8, 16, 32, 64, 128, 256] 300 = Inl BadAlloc
         \<and> (\<forall>ly R g h e.
               m_SubPoolSizes g = classes \<longrightarrow> ResolvePool classes typeSize = Inl e \<longrightarrow>
               New R typeSize g = (Inl e, g) \<and> Delete ly typeSize g h = (Inl e, g, h))
         \<and> (\<forall>ly R g h g1.
               m_SubPoolSizes g = classes \<longrightarrow> New R typeSize g = (Inr h, g1) \<longrightarrow>
               (\<exists>c ft1. ResolvePool classes typeSize = Inr c
                  \<and> ResolvePool (m_SubPoolSizes g1) typeSize = Inr c
                  \<and> pContainer h = Some c \<and> m_Pools g1 c = Some ft1
                  \<and> fst (Delete True typeSize g1 h) = fst (Pop typeSize c ft1 h)
                  \<and> m_Pools (fst (snd (Delete True typeSize g1 h))) c
                      = Some (fst (snd (Pop typeSize c ft1 h)))
                  \<and> (\<forall>k. k \<noteq> c \<longrightarrow>
                        m_Pools (fst (snd (Delete ly typeSize g1 h))) k = m_Pools g k)))
         \<and> (\<forall>R g c ft k.
               m_SubPoolSizes g = classes \<longrightarrow> ResolvePool classes typeSize = Inr c \<longrightarrow>
               m_Pools g c = Some ft \<longrightarrow> pool_layout ft \<longrightarrow> sizeP ft < capacity ft \<longrightarrow>
               typeSize \<le> poolItemSize ft \<longrightarrow> 0 < typeSize \<longrightarrow>
               k < capacity ft \<longrightarrow> \<not> lut_bit (poolBlock ft) k \<longrightarrow>
               (\<exists>s g1 ft1 g2 ft2.
                    New R typeSize g = (Inr \<lparr>offset = s, pContainer = Some c\<rparr>, g1)
                  \<and> s \<le> k \<and> \<not> lut_bit (poolBlock ft) s
                  \<and> m_Pools g1 c = Some ft1 \<and> lut_bit (poolBlock ft1) s
                  \<and> sizeP ft1 = sizeP ft + 1
                  \<and> Delete True typeSize g1 \<lparr>offset = s, pContainer = Some c\<rparr>
                      = (Inr (), g2, \<lparr>offset = 0, pContainer = None\<rparr>)
                  \<and> m_Pools g2 c = Some ft2 \<and> \<not> lut_bit (poolBlock ft2) s
                  \<and> bitmap ft2 = bitmap ft \<and> sizeP ft2 = sizeP ft
                  \<and> (\<forall>k'. k' \<noteq> c \<longrightarrow> m_Pools g2 k' = m_Pools g k')))"
proof -
  have fit: "\<forall>c. ResolvePool classes typeSize = Inr c \<longrightarrow>
            c \<in> set classes \<and> typeSize \<le> c
            \<and> (\<forall>c' \<in> set classes. typeSize \<le> c' \<longrightarrow> c \<le> c')
            \<and> (\<exists>pre post. classes = pre @ c # post \<and> (\<forall>x \<in> set pre. x < typeSize))"
  proof (intro allI impI)
    fix c assume r: "ResolvePool classes typeSize = Inr c"
    from ResolvePool_first_match [OF r] obtain pre post
      where sp: "classes = pre @ c # post" "\<forall>x \<in> set pre. x < typeSize" "typeSize \<le> c"
      by blast
    have "c \<in> set classes" using sp(1) by simp
    moreover have "\<forall>c' \<in> set classes. typeSize \<le> c' \<longrightarrow> c \<le> c'"
      using ResolvePool_least [OF assms r] by blast
    ultimately show "c \<in> set classes \<and> typeSize \<le> c
            \<and> (\<forall>c' \<in> set classes. typeSize \<le> c' \<longrightarrow> c \<le> c')
            \<and> (\<exists>pre post. classes = pre @ c # post \<and> (\<forall>x \<in> set pre. x < typeSize))"
      using sp by blast
  qed
  have total: "(\<exists>c \<in> set classes. typeSize \<le> c) \<longrightarrow> (\<exists>c. ResolvePool classes typeSize = Inr c)"
  proof
    assume ex: "\<exists>c \<in> set classes. typeSize \<le> c"
    show "\<exists>c. ResolvePool classes typeSize = Inr c"
    proof (cases "ResolvePool classes typeSize")
      case (Inl e)
      from ResolvePool_Inl [OF Inl] ex show ?thesis by force
    next
      case (Inr c)
      then show ?thesis by blast
    qed
  qed
  have exceeds: "(\<forall>c \<in> set classes. c < typeSize) \<longrightarrow> ResolvePool classes typeSize = Inl BadAlloc"
    using ResolvePool_exceeds by blast
  have fails: "\<forall>e. ResolvePool classes typeSize = Inl e \<longrightarrow>
               e = BadAlloc \<and> (\<forall>c \<in> set classes. c < typeSize)"
    using ResolvePool_Inl by blast
  have none: "\<forall>ly R g h e.
               m_SubPoolSizes g = classes \<longrightarrow> ResolvePool classes typeSize = Inl e \<longrightarrow>
               New R typeSize g = (Inl e, g) \<and> Delete ly typeSize g h = (Inl e, g, h)"
    by (simp add: New_no_class Delete_no_class)
  have same: "\<forall>ly R g h g1.
               m_SubPoolSizes g = classes \<longrightarrow> New R typeSize g = (Inr h, g1) \<longrightarrow>
               (\<exists>c ft1. ResolvePool classes typeSize = Inr c
                  \<and> ResolvePool (m_SubPoolSizes g1) typeSize = Inr c
                  \<and> pContainer h = Some c \<and> m_Pools g1 c = Some ft1
                  \<and> fst (Delete True typeSize g1 h) = fst (Pop typeSize c ft1 h)
                  \<and> m_Pools (fst (snd (Delete True typeSize g1 h))) c
                      = Some (fst (snd (Pop typeSize c ft1 h)))
                  \<and> (\<forall>k. k \<noteq> c \<longrightarrow>
                        m_Pools (fst (snd (Delete ly typeSize g1 h))) k = m_Pools g k))"
  proof (intro allI impI)
    fix ly R g h g1
    assume g: "m_SubPoolSizes g = classes" and n: "New R typeSize g = (Inr h, g1)"
    from New_class [OF n] g obtain c ft1
      where c: "ResolvePool classes typeSize = Inr c" "pContainer h = Some c"
        "m_SubPoolSizes g1 = classes" "\<forall>k. k \<noteq> c \<longrightarrow> m_Pools g1 k = m_Pools g k"
        "m_Pools g1 c = Some ft1"
      by auto
    from c(1,3) have c1: "ResolvePool (m_SubPoolSizes g1) typeSize = Inr c" by simp
    from c(2) have hh: "\<lparr>offset = offset h, pContainer = Some c\<rparr> = h" by simp
    note D = Delete_routes(1) [OF c1 c(5)] Delete_routes(2) [OF c1 c(5)]
      Delete_routes(3) [OF c1 c(5)]
    from D(1,2) [of h] hh have "fst (Delete True typeSize g1 h) = fst (Pop typeSize c ft1 h)"
      "m_Pools (fst (snd (Delete True typeSize g1 h))) c
                      = Some (fst (snd (Pop typeSize c ft1 h)))" by simp_all
    moreover from D(3) [of ly h] c(4)
    have "\<forall>k. k \<noteq> c \<longrightarrow> m_Pools (fst (snd (Delete ly typeSize g1 h))) k = m_Pools g k"
      by simp
    ultimately show "\<exists>c ft1. ResolvePool classes typeSize = Inr c
                  \<and> ResolvePool (m_SubPoolSizes g1) typeSize = Inr c
                  \<and> pContainer h = Some c \<and> m_Pools g1 c = Some ft1
                  \<and> fst (Delete True typeSize g1 h) = fst (Pop typeSize c ft1 h)
                  \<and> m_Pools (fst (snd (Delete True typeSize g1 h))) c
                      = Some (fst (snd (Pop typeSize c ft1 h)))
                  \<and> (\<forall>k. k \<noteq> c \<longrightarrow>
                        m_Pools (fst (snd (Delete ly typeSize g1 h))) k = m_Pools g k)"
      using c(1,2,5) c1 by blast
  qed
  have round: "\<forall>R g c ft k.
               m_SubPoolSizes g = classes \<longrightarrow> ResolvePool classes typeSize = Inr c \<longrightarrow>
               m_Pools g c = Some ft \<longrightarrow> pool_layout ft \<longrightarrow> sizeP ft < capacity ft \<longrightarrow>
               typeSize \<le> poolItemSize ft \<longrightarrow> 0 < typeSize \<longrightarrow>
               k < capacity ft \<longrightarrow> \<not> lut_bit (poolBlock ft) k \<longrightarrow>
               (\<exists>s g1 ft1 g2 ft2.
                    New R typeSize g = (Inr \<lparr>offset = s, pContainer = Some c\<rparr>, g1)
                  \<and> s \<le> k \<and> \<not> lut_bit (poolBlock ft) s
                  \<and> m_Pools g1 c = Some ft1 \<and> lut_bit (poolBlock ft1) s
                  \<and> sizeP ft1 = sizeP ft + 1
                  \<and> Delete True typeSize g1 \<lparr>offset = s, pContainer = Some c\<rparr>
                      = (Inr (), g2, \<lparr>offset = 0, pContainer = None\<rparr>)
                  \<and> m_Pools g2 c = Some ft2 \<and> \<not> lut_bit (poolBlock ft2) s
                  \<and> bitmap ft2 = bitmap ft \<and> sizeP ft2 = sizeP ft
                  \<and> (\<forall>k'. k' \<noteq> c \<longrightarrow> m_Pools g2 k' = m_Pools g k'))"
  proof (intro allI impI)
    fix R and g :: GeneralPurposeAllocator and c ft k
    assume g: "m_SubPoolSizes g = classes" and r: "ResolvePool classes typeSize = Inr c"
      and a: "m_Pools g c = Some ft" "pool_layout ft" "sizeP ft < capacity ft"
        "typeSize \<le> poolItemSize ft" "0 < typeSize"
        "k < capacity ft" "\<not> lut_bit (poolBlock ft) k"
    from g r have r': "ResolvePool (m_SubPoolSizes g) typeSize = Inr c" by simp
    from New_Delete_roundtrip [OF r' a, of R]
    show "\<exists>s g1 ft1 g2 ft2.
                    New R typeSize g = (Inr \<lparr>offset = s, pContainer = Some c\<rparr>, g1)
                  \<and> s \<le> k \<and> \<not> lut_bit (poolBlock ft) s
                  \<and> m_Pools g1 c = Some ft1 \<and> lut_bit (poolBlock ft1) s
                  \<and> sizeP ft1 = sizeP ft + 1
                  \<and> Delete True typeSize g1 \<lparr>offset = s, pContainer = Some c\<rparr>
                      = (Inr (), g2, \<lparr>offset = 0, pContainer = None\<rparr>)
                  \<and> m_Pools g2 c = Some ft2 \<and> \<not> lut_bit (poolBlock ft2) s
                  \<and> bitmap ft2 = bitmap ft \<and> sizeP ft2 = sizeP ft
                  \<and> (\<forall>k'. k' \<noteq> c \<longrightarrow> m_Pools g2 k' = m_Pools g k')" .
  qed
  have ex1: "ResolvePool [8, 16, 32, 64, 128, 256] 20 = Inr 32" by simp
  have ex2: "ResolvePool [8, 16, 32, 64, 128, 256] 300 = Inl BadAlloc" by simp
  from fit total exceeds fails ex1 ex2 none same round show ?thesis by (intro conjI)
qed

theorem ResolvePool_smallest_fitting_class_witness:
  "sorted [2, 4 :: nat]
   \<and> ResolvePool [2, 4] 3 = Inr 4
   \<and> m_Pools (GeneralPurposeAllocator_init 8 [2, 4]) 4 = Some (FixedTypeAllocator_init (Padding 4) 8)
   \<and> fst (New True 3 (GeneralPurposeAllocator_init 8 [2, 4])) = Inr \<lparr>offset = 0, pContainer = Some 4\<rparr>
   \<and> Delete True 3 (snd (New True 3 (GeneralPurposeAllocator_init 8 [2, 4])))
        \<lparr>offset = 0, pContainer = Some 4\<rparr>
      = (Inr (),
         fst (snd (Delete True 3 (snd (New True 3 (GeneralPurposeAllocator_init 8 [2, 4])))
                     \<lparr>offset = 0, pContainer = Some 4\<rparr>)),
         \<lparr>offset = 0, pContainer = None\<rparr>)
   \<and> map_option bitmap
        (m_Pools (fst (snd (Delete True 3 (snd (New True 3 (GeneralPurposeAllocator_init 8 [2, 4])))
                              \<lparr>offset = 0, pContainer = Some 4\<rparr>))) 4)
      = Some (bitmap (FixedTypeAllocator_init (Padding 4) 8))
   \<and> fst (Delete True 3 (snd (New True 3 (GeneralPurposeAllocator_init 8 [2, 4])))
             \<lparr>offset = 0, pContainer = Some 4\<rparr>)
      = fst (Pop 3 4 (the (m_Pools (snd (New True 3 (GeneralPurposeAllocator_init 8 [2, 4]))) 4))
               \<lparr>offset = 0, pContainer = Some 4\<rparr>)"
proof -
  let ?G = "GeneralPurposeAllocator_init 8 [2, 4]"
  let ?F = "FixedTypeAllocator_init (Padding 4) 8"
  let ?h = "\<lparr>offset = 0, pContainer = Some 4\<rparr> :: OffsetPtr"
  have s: "sorted [2, 4 :: nat]" by simp
  have r: "ResolvePool [2, 4] 3 = Inr 4" by simp
  have g: "m_SubPoolSizes ?G = [2, 4]" by (simp add: GeneralPurposeAllocator_init_def)
  have m: "m_Pools ?G 4 = Some ?F" by (simp add: GeneralPurposeAllocator_init_def AddPools_def)
  have l: "pool_layout ?F" by code_simp
  have z: "sizeP ?F < capacity ?F" by code_simp
  have i: "3 \<le> poolItemSize ?F" by code_simp
  have k: "0 < capacity ?F" by code_simp
  have b: "\<not> lut_bit (poolBlock ?F) 0" by code_simp
  note T = ResolvePool_smallest_fitting_class [OF s, of 3]
  note T7 = T [THEN conjunct2, THEN conjunct2, THEN conjunct2, THEN conjunct2,
    THEN conjunct2, THEN conjunct2, THEN conjunct2]
  from T7 [THEN conjunct2, rule_format, OF g r m l z i _ k b, of True]
  obtain s g1 ft1 g2 ft2 where
    R: "New True 3 ?G = (Inr \<lparr>offset = s, pContainer = Some 4\<rparr>, g1)" "s \<le> 0"
      "Delete True 3 g1 \<lparr>offset = s, pContainer = Some 4\<rparr>
         = (Inr (), g2, \<lparr>offset = 0, pContainer = None\<rparr>)"
      "m_Pools g2 4 = Some ft2" "bitmap ft2 = bitmap ?F"
    by auto
  from R(2) have s0: "s = 0" by simp
  from R(1) s0 have n: "New True 3 ?G = (Inr ?h, g1)" by simp
  from T7 [THEN conjunct1, rule_format, OF g n, of True] obtain c ft1' where
    S: "ResolvePool [2, 4] 3 = Inr c" "m_Pools g1 c = Some ft1'"
      "fst (Delete True 3 g1 ?h) = fst (Pop 3 c ft1' ?h)"
    by auto
  from S(1) r have c: "c = 4" by simp
  from n have n1: "fst (New True 3 ?G) = Inr ?h" and n2: "snd (New True 3 ?G) = g1" by simp_all
  from R(3) s0 have d: "Delete True 3 g1 ?h = (Inr (), g2, \<lparr>offset = 0, pContainer = None\<rparr>)"
    by simp
  from S(2,3) c have e: "fst (Delete True 3 g1 ?h) = fst (Pop 3 4 (the (m_Pools g1 4)) ?h)"
    by simp
  from s r m n1 show ?thesis
    unfolding n2 using d R(4,5) e by simp
qed

section \<open>Get on a full pool without growth\<close>

text \<open>
  C7. With \<^verbatim>\<open>Reallocates = false\<close>, \<open>Get\<close> on a pool whose size equals its capacity
  returns the unbound handle (no container, offset 0) and leaves the pool, hence its
  capacity, size and bitmap, as it was. The capacity is a multiple of 8, as the template
  of \<^verbatim>\<open>FixedTypeAllocator\<close> demands, and a \<^verbatim>\<open>uint64_t\<close>.
\<close>

theorem Get_full_no_growth:
  assumes "sizeP p = capacity p" "capacity p mod 8 = 0" "capacity p < 2 ^ 64"
  shows "Get False T self p = (Inr \<lparr>offset = 0, pContainer = None\<rparr>, p)"
proof -
  have "capacity p \<noteq> 2 ^ 64 - 1"
  proof
    assume "capacity p = 2 ^ 64 - 1"
    with assms(2) show False by simp
  qed
  with assms(3) have "capacity p + 1 < 2 ^ 64" by simp
  then have "u64 (sizeP p + 1) = capacity p + 1"
    using assms(1) by (simp add: u64_id)
  then show ?thesis
    by (simp add: Get_def OffsetPtr_default_def)
qed

theorem Get_full_no_growth_witness:
  "sizeP (Get_times 8 False [0] 7 (FixedTypeAllocator_init [0] 8))
     = capacity (Get_times 8 False [0] 7 (FixedTypeAllocator_init [0] 8))
   \<and> capacity (Get_times 8 False [0] 7 (FixedTypeAllocator_init [0] 8)) mod 8 = 0
   \<and> capacity (Get_times 8 False [0] 7 (FixedTypeAllocator_init [0] 8)) < 2 ^ 64
   \<and> Get False [0] 7 (Get_times 8 False [0] 7 (FixedTypeAllocator_init [0] 8))
       = (Inr \<lparr>offset = 0, pContainer = None\<rparr>,
          Get_times 8 False [0] 7 (FixedTypeAllocator_init [0] 8))"
proof -
  let ?p = "Get_times 8 False [0] 7 (FixedTypeAllocator_init [0] 8)"
  have a: "sizeP ?p = capacity ?p" by code_simp
  have b: "capacity ?p mod 8 = 0" by code_simp
  have c: "capacity ?p < 2 ^ 64" by code_simp
  from Get_full_no_growth [OF a b c] a b c show ?thesis by blast
qed

section \<open>Pop of a slot that is already free\<close>

text \<open>
  C1 (as the code has it). For a handle of this pool with an index below the capacity
  whose bitmap bit is clear, \<open>Pop\<close> returns normally: no error is raised, the pool is
  unchanged and the handle is not zeroed.
\<close>

theorem Pop_clear_bit_ignored:
  assumes "pContainer h = Some self" "offset h < capacity p" "0 < sz"
    "capacity p div 8 \<le> length (poolBlock p)" "capacity p mod 8 = 0"
    "\<not> bit (poolBlock p ! (offset h div 8)) (offset h mod 8)"
  shows "Pop sz self p h = (Inr (), p, h)"
  using assms by (rule Pop_clear_bit)

theorem Pop_clear_bit_ignored_witness:
  "pContainer (OffsetPtr_make 7 3) = Some 7
   \<and> offset (OffsetPtr_make 7 3) < capacity (FixedTypeAllocator_init [0] 8)
   \<and> (0 :: nat) < 1
   \<and> capacity (FixedTypeAllocator_init [0] 8) div 8 \<le> length (poolBlock (FixedTypeAllocator_init [0] 8))
   \<and> capacity (FixedTypeAllocator_init [0] 8) mod 8 = 0
   \<and> \<not> bit (poolBlock (FixedTypeAllocator_init [0] 8) ! (offset (OffsetPtr_make 7 3) div 8))
            (offset (OffsetPtr_make 7 3) mod 8)
   \<and> Pop 1 7 (FixedTypeAllocator_init [0] 8) (OffsetPtr_make 7 3)
       = (Inr (), FixedTypeAllocator_init [0] 8, OffsetPtr_make 7 3)"
proof -
  let ?p = "FixedTypeAllocator_init [0] 8" and ?h = "OffsetPtr_make 7 3"
  have a: "pContainer ?h = Some 7" by code_simp
  have b: "offset ?h < capacity ?p" by code_simp
  have c: "(0 :: nat) < 1" by simp
  have d: "capacity ?p div 8 \<le> length (poolBlock ?p)" by code_simp
  have e: "capacity ?p mod 8 = 0" by code_simp
  have f: "\<not> bit (poolBlock ?p ! (offset ?h div 8)) (offset ?h mod 8)" by code_simp
  from Pop_clear_bit_ignored [OF a b c d e f] a b c d e f show ?thesis by blast
qed


text \<open>
  C1 as stated fails: a slot is allocated and freed, and a second \<open>Pop\<close> through a
  copy of the handle returns normally with the pool and the handle unchanged.
\<close>

theorem Pop_double_free_not_detected:
  "Get True [0] 7 (FixedTypeAllocator_init [0] 8)
     = (Inr (OffsetPtr_make 7 0),
        \<lparr>poolBlock = [1, 0, 0, 0, 0, 0, 0, 0, 0], pMem = 1, capacity = 8, sizeP = 1,
           poolItemSize = 1\<rparr>)
   \<and> Pop 1 7 \<lparr>poolBlock = [1, 0, 0, 0, 0, 0, 0, 0, 0], pMem = 1, capacity = 8, sizeP = 1,
                poolItemSize = 1\<rparr> (OffsetPtr_make 7 0)
     = (Inr (), FixedTypeAllocator_init [0] 8, OffsetPtr_default)
   \<and> Pop 1 7 (FixedTypeAllocator_init [0] 8) (OffsetPtr_make 7 0)
     = (Inr (), FixedTypeAllocator_init [0] 8, OffsetPtr_make 7 0)"
  by code_simp


section \<open>Delete and the caller's handle\<close>

lemma Delete_result:
  assumes "Delete ly sz g h = (r, g1, h1)"
  shows "(\<forall>u. r = Inr u \<longrightarrow> h1 = \<lparr>offset = 0, pContainer = None\<rparr>) \<and> (\<forall>e. r = Inl e \<longrightarrow> h1 = h)"
  using assms
  by (auto simp: Delete_def ZeroOut_def split: sum.splits option.splits prod.splits if_splits)

lemma Delete_double_free:
  assumes "ResolvePool (m_SubPoolSizes g) sz = Inr c" "m_Pools g c = Some ft"
    "offset h < capacity ft" "0 < sz" "capacity ft div 8 \<le> length (poolBlock ft)"
    "capacity ft mod 8 = 0" "\<not> bit (poolBlock ft ! (offset h div 8)) (offset h mod 8)"
  shows "Delete True sz g h = (Inr (), g, \<lparr>offset = 0, pContainer = None\<rparr>)"
proof -
  have "Pop sz c ft (OffsetPtr_make c (Internal h)) = (Inr (), ft, OffsetPtr_make c (Internal h))"
    using assms(3-7) by (intro Pop_clear_bit) (simp_all add: OffsetPtr_make_def Internal_def)
  moreover have "(m_Pools g)(c \<mapsto> ft) = m_Pools g"
    using assms(2) by (rule map_upd_triv)
  ultimately show ?thesis
    using assms(1,2) by (simp add: Delete_def ZeroOut_def)
qed

text \<open>
  C10 (as the code has it). Whatever the object layout, the caller's handle is unbound
  when \<open>Delete\<close> returns normally and is as it was when \<open>Delete\<close> throws; when no class
  fits, \<open>Delete\<close> throws \<^verbatim>\<open>std::bad_alloc\<close> and changes nothing. Under the layout
  assumption \<open>poolFirst\<close>, \<open>Delete\<close> returns or throws as the \<open>Pop\<close> of the handle's index on
  the pool of the resolved class does, and a \<open>Delete\<close> of a slot whose bit is already clear
  returns normally, leaves the allocator unchanged and unbinds the handle. Without the
  assumption the call through the reinterpreted pointer is undefined, and nothing is
  claimed of the handle beyond that the model leaves it and the allocator as they were.
\<close>

theorem Delete_zeroes_handle_on_return:
  assumes "Delete poolFirst sz g h = (r, g1, h1)"
  shows "(\<forall>u. r = Inr u \<longrightarrow> h1 = \<lparr>offset = 0, pContainer = None\<rparr>)
       \<and> (\<forall>e. r = Inl e \<longrightarrow> h1 = h)
       \<and> (\<forall>e. ResolvePool (m_SubPoolSizes g) sz = Inl e \<longrightarrow> r = Inl e \<and> g1 = g \<and> h1 = h)
       \<and> (\<forall>c ft. ResolvePool (m_SubPoolSizes g) sz = Inr c \<longrightarrow> m_Pools g c = Some ft \<longrightarrow>
             (\<not> poolFirst \<longrightarrow> r = Inl Undefined \<and> g1 = g \<and> h1 = h)
           \<and> (poolFirst \<longrightarrow> r = fst (Pop sz c ft \<lparr>offset = offset h, pContainer = Some c\<rparr>))
           \<and> (poolFirst \<longrightarrow> offset h < capacity ft \<longrightarrow> 0 < sz \<longrightarrow>
                capacity ft div 8 \<le> length (poolBlock ft) \<longrightarrow> capacity ft mod 8 = 0 \<longrightarrow>
                \<not> bit (poolBlock ft ! (offset h div 8)) (offset h mod 8) \<longrightarrow>
                r = Inr () \<and> g1 = g \<and> h1 = \<lparr>offset = 0, pContainer = None\<rparr>))"
proof -
  have none: "\<forall>e. ResolvePool (m_SubPoolSizes g) sz = Inl e \<longrightarrow> r = Inl e \<and> g1 = g \<and> h1 = h"
    using assms by (auto simp: Delete_no_class)
  have cls: "\<forall>c ft. ResolvePool (m_SubPoolSizes g) sz = Inr c \<longrightarrow> m_Pools g c = Some ft \<longrightarrow>
             (\<not> poolFirst \<longrightarrow> r = Inl Undefined \<and> g1 = g \<and> h1 = h)
           \<and> (poolFirst \<longrightarrow> r = fst (Pop sz c ft \<lparr>offset = offset h, pContainer = Some c\<rparr>))
           \<and> (poolFirst \<longrightarrow> offset h < capacity ft \<longrightarrow> 0 < sz \<longrightarrow>
                capacity ft div 8 \<le> length (poolBlock ft) \<longrightarrow> capacity ft mod 8 = 0 \<longrightarrow>
                \<not> bit (poolBlock ft ! (offset h div 8)) (offset h mod 8) \<longrightarrow>
                r = Inr () \<and> g1 = g \<and> h1 = \<lparr>offset = 0, pContainer = None\<rparr>)"
  proof (intro allI impI conjI)
    fix c ft
    assume c: "ResolvePool (m_SubPoolSizes g) sz = Inr c" "m_Pools g c = Some ft"
    {
      assume "\<not> poolFirst"
      with assms Delete_routes(5) [OF c, of h]
      show "r = Inl Undefined" "g1 = g" "h1 = h" by simp_all
    }
    {
      assume "poolFirst"
      with assms Delete_routes(1) [OF c, of h]
      show "r = fst (Pop sz c ft \<lparr>offset = offset h, pContainer = Some c\<rparr>)" by simp
    }
    {
      assume "poolFirst" "offset h < capacity ft" "0 < sz"
        "capacity ft div 8 \<le> length (poolBlock ft)"
        "capacity ft mod 8 = 0" "\<not> bit (poolBlock ft ! (offset h div 8)) (offset h mod 8)"
      with assms Delete_double_free [OF c, of h]
      show "r = Inr ()" "g1 = g" "h1 = \<lparr>offset = 0, pContainer = None\<rparr>" by simp_all
    }
  qed
  from Delete_result [OF assms] none cls show ?thesis by (intro conjI) blast+
qed

theorem Delete_zeroes_handle_on_return_witness:
  "fst (Delete True 3 (GeneralPurposeAllocator_init 8 [2, 4]) (OffsetPtr_make 4 0)) = Inr ()
   \<and> snd (snd (Delete True 3 (GeneralPurposeAllocator_init 8 [2, 4]) (OffsetPtr_make 4 0)))
       = \<lparr>offset = 0, pContainer = None\<rparr>
   \<and> fst (Delete True 3 (GeneralPurposeAllocator_init 8 [2, 4]) (OffsetPtr_make 4 9))
       = Inl OutOfRange
   \<and> snd (snd (Delete True 3 (GeneralPurposeAllocator_init 8 [2, 4]) (OffsetPtr_make 4 9)))
       = OffsetPtr_make 4 9
   \<and> Delete False 3 (GeneralPurposeAllocator_init 8 [2, 4]) (OffsetPtr_make 4 0)
       = (Inl Undefined, GeneralPurposeAllocator_init 8 [2, 4], OffsetPtr_make 4 0)"
proof -
  let ?G = "GeneralPurposeAllocator_init 8 [2, 4]"
  let ?F = "FixedTypeAllocator_init (Padding 4) 8"
  let ?d = "Delete True 3 ?G (OffsetPtr_make 4 0)"
  let ?o = "Delete True 3 ?G (OffsetPtr_make 4 9)"
  let ?u = "Delete False 3 ?G (OffsetPtr_make 4 0)"
  have c: "ResolvePool (m_SubPoolSizes ?G) 3 = Inr 4"
    by (simp add: GeneralPurposeAllocator_init_def)
  have m: "m_Pools ?G 4 = Some ?F" by (simp add: GeneralPurposeAllocator_init_def AddPools_def)
  have r: "fst ?d = Inr ()" by code_simp
  have d: "?d = (fst ?d, fst (snd ?d), snd (snd ?d))" by simp
  from Delete_zeroes_handle_on_return [OF d] r
  have 1: "snd (snd ?d) = \<lparr>offset = 0, pContainer = None\<rparr>" by blast
  have x: "fst ?o = Inl OutOfRange" by code_simp
  have o: "?o = (fst ?o, fst (snd ?o), snd (snd ?o))" by simp
  from Delete_zeroes_handle_on_return [OF o] x
  have 2: "snd (snd ?o) = OffsetPtr_make 4 9" by blast
  have u: "?u = (fst ?u, fst (snd ?u), snd (snd ?u))" by simp
  from Delete_zeroes_handle_on_return [OF u] c m
  have "fst ?u = Inl Undefined \<and> fst (snd ?u) = ?G \<and> snd (snd ?u) = OffsetPtr_make 4 0"
    by blast
  then have 3: "?u = (Inl Undefined, ?G, OffsetPtr_make 4 0)" by (simp add: prod_eq_iff)
  from r 1 x 2 3 show ?thesis by (intro conjI)
qed

text \<open>
  C10 as stated fails, whatever the object layout: for a type larger than every class
  \<open>ResolvePool\<close> throws \<^verbatim>\<open>std::bad_alloc\<close> inside \<open>Delete\<close>, before the handle is touched,
  and the caller's handle stays bound.
\<close>

theorem Delete_throws_keeps_handle:
  "Delete True 5 (GeneralPurposeAllocator_init 8 [2, 4]) \<lparr>offset = 0, pContainer = Some 4\<rparr>
     = (Inl BadAlloc, GeneralPurposeAllocator_init 8 [2, 4], \<lparr>offset = 0, pContainer = Some 4\<rparr>)
   \<and> Delete False 5 (GeneralPurposeAllocator_init 8 [2, 4]) \<lparr>offset = 0, pContainer = Some 4\<rparr>
     = (Inl BadAlloc, GeneralPurposeAllocator_init 8 [2, 4], \<lparr>offset = 0, pContainer = Some 4\<rparr>)"
  by (simp add: Delete_def GeneralPurposeAllocator_init_def)

section \<open>Allocation claims the first free slot\<close>

text \<open>
  C5 (as the code has it). \<open>Get\<close> looks at the bitmap only when \<^verbatim>\<open>size + 1\<close> does not
  exceed the capacity. On a pool with the constructor's layout whose size is below its
  capacity, as it is whenever the size is the popcount of the bitmap and a bit is clear,
  and which has a clear bit below its capacity, \<open>Get\<close> returns a handle bound to this
  pool and to the lowest-indexed free slot \<open>s\<close>: bit \<open>s\<close> was clear and every lower bit
  set; afterwards bit \<open>s\<close> is set and no other bit has changed, the size is one more, the
  capacity is the same, the object in slot \<open>s\<close> is the value-initialised \<open>T\<close>, and the
  bytes of every other slot are as before.
\<close>

theorem Get_claims_lowest_free_slot:
  assumes "pool_layout p" "size_is_popcount p \<or> sizeP p < capacity p"
    "length T = poolItemSize p" "k < capacity p" "\<not> lut_bit (poolBlock p) k"
  shows "\<exists>s p'. Get Reallocates T self p = (Inr \<lparr>offset = s, pContainer = Some self\<rparr>, p')
      \<and> s < capacity p \<and> \<not> lut_bit (poolBlock p) s \<and> (\<forall>s' < s. lut_bit (poolBlock p) s')
      \<and> lut_bit (poolBlock p') s
      \<and> (\<forall>k' < capacity p. k' \<noteq> s \<longrightarrow> lut_bit (poolBlock p') k' = lut_bit (poolBlock p) k')
      \<and> sizeP p' = sizeP p + 1 \<and> capacity p' = capacity p
      \<and> read_object (length T) self p' \<lparr>offset = s, pContainer = Some self\<rparr> = Some T
      \<and> (\<forall>s' < capacity p. s' \<noteq> s \<longrightarrow>
            read_object (length T) self p' \<lparr>offset = s', pContainer = Some self\<rparr>
            = read_object (length T) self p \<lparr>offset = s', pContainer = Some self\<rparr>)"
proof -
  from assms(2) size_lt_capacity [OF assms(1) _ assms(4,5)]
  have lt: "sizeP p < capacity p" by blast
  from Get_below_capacity [OF assms(1) lt assms(3,4,5), of Reallocates self] obtain s p' where
    S: "Get Reallocates T self p = (Inr (OffsetPtr_make self s), p')"
      "s \<le> k" "\<not> lut_bit (poolBlock p) s" "\<forall>s' < s. lut_bit (poolBlock p) s'"
      "capacity p' = capacity p" "sizeP p' = sizeP p + 1"
      "\<forall>k' < capacity p. lut_bit (poolBlock p') k' = (k' = s \<or> lut_bit (poolBlock p) k')"
      "read_object (length T) self p' (OffsetPtr_make self s) = Some T"
      "\<forall>s' < capacity p. s' \<noteq> s \<longrightarrow>
            read_object (length T) self p' (OffsetPtr_make self s')
            = read_object (length T) self p (OffsetPtr_make self s')"
    by blast
  from S(2) assms(4) have sc: "s < capacity p" by simp
  with S(7) have set: "lut_bit (poolBlock p') s" by simp
  from S(7) have oth: "\<forall>k' < capacity p. k' \<noteq> s \<longrightarrow>
      lut_bit (poolBlock p') k' = lut_bit (poolBlock p) k'" by simp
  from S(1,3,4,5,6,8,9) sc set oth show ?thesis unfolding OffsetPtr_make_def by blast
qed

theorem Get_claims_lowest_free_slot_witness:
  "pool_layout \<lparr>poolBlock = [5, 0, 0, 0, 0, 0, 0, 0, 0], pMem = 1, capacity = 8, sizeP = 2, poolItemSize = 1\<rparr>
   \<and> size_is_popcount \<lparr>poolBlock = [5, 0, 0, 0, 0, 0, 0, 0, 0], pMem = 1, capacity = 8, sizeP = 2, poolItemSize = 1\<rparr>
   \<and> sizeP \<lparr>poolBlock = [5, 0, 0, 0, 0, 0, 0, 0, 0], pMem = 1, capacity = 8, sizeP = 2, poolItemSize = 1\<rparr>
       < capacity \<lparr>poolBlock = [5, 0, 0, 0, 0, 0, 0, 0, 0], pMem = 1, capacity = 8, sizeP = 2, poolItemSize = 1\<rparr>
   \<and> length [0 :: u8] = poolItemSize \<lparr>poolBlock = [5, 0, 0, 0, 0, 0, 0, 0, 0], pMem = 1, capacity = 8, sizeP = 2, poolItemSize = 1\<rparr>
   \<and> 1 < capacity \<lparr>poolBlock = [5, 0, 0, 0, 0, 0, 0, 0, 0], pMem = 1, capacity = 8, sizeP = 2, poolItemSize = 1\<rparr>
   \<and> \<not> lut_bit (poolBlock \<lparr>poolBlock = [5, 0, 0, 0, 0, 0, 0, 0, 0], pMem = 1, capacity = 8, sizeP = 2, poolItemSize = 1\<rparr>) 1
   \<and> (\<exists>s p'. Get False [0] 7 \<lparr>poolBlock = [5, 0, 0, 0, 0, 0, 0, 0, 0], pMem = 1, capacity = 8, sizeP = 2, poolItemSize = 1\<rparr> = (Inr \<lparr>offset = s, pContainer = Some 7\<rparr>, p')
         \<and> sizeP p' = sizeP \<lparr>poolBlock = [5, 0, 0, 0, 0, 0, 0, 0, 0], pMem = 1, capacity = 8, sizeP = 2, poolItemSize = 1\<rparr> + 1)
   \<and> fst (Get False [0] 7 \<lparr>poolBlock = [5, 0, 0, 0, 0, 0, 0, 0, 0], pMem = 1, capacity = 8, sizeP = 2, poolItemSize = 1\<rparr>) = Inr \<lparr>offset = 1, pContainer = Some 7\<rparr>"
proof -
  let ?P = "\<lparr>poolBlock = [5, 0, 0, 0, 0, 0, 0, 0, 0], pMem = 1, capacity = 8, sizeP = 2, poolItemSize = 1\<rparr>"
  have a: "pool_layout ?P" by code_simp
  have b: "size_is_popcount ?P" by code_simp
  have b': "sizeP ?P < capacity ?P" by code_simp
  have c: "length [0 :: u8] = poolItemSize ?P" by code_simp
  have d: "1 < capacity ?P" by code_simp
  have e: "\<not> lut_bit (poolBlock ?P) 1" by code_simp
  have f: "fst (Get False [0] 7 ?P) = Inr \<lparr>offset = 1, pContainer = Some 7\<rparr>" by code_simp
  from b have bb: "size_is_popcount ?P \<or> sizeP ?P < capacity ?P" ..
  from Get_claims_lowest_free_slot [OF a bb c d e, of False 7]
  have "\<exists>s p'. Get False [0] 7 ?P = (Inr \<lparr>offset = s, pContainer = Some 7\<rparr>, p')
         \<and> sizeP p' = sizeP ?P + 1" by blast
  with a b b' c d e f show ?thesis by blast
qed

text \<open>
  C5 as stated fails: a clear bit is not enough. \<open>Get\<close> tests the size, and \<open>Pop\<close> moves the
  size away from the popcount. On a fresh pool of capacity 8 with one-byte objects, one
  \<open>Get\<close> claims slot 0; the caller then stores the byte 1 in its object and calls \<open>Pop\<close>
  with the index 8, three times over. Index 8 passes the bounds check of \<open>Pop\<close>, which
  reads byte 1 of the allocation (the object of slot 0) as a bitmap byte, clears its bit
  and decrements the size: 1, 0, \<open>2\<^sup>6\<^sup>4 - 1\<close>, \<open>2\<^sup>6\<^sup>4 - 2\<close>. The bitmap is \<^verbatim>\<open>0x01\<close> throughout,
  so seven bits are clear, and \<open>Get\<close> without growth returns the unbound handle and
  claims nothing.
\<close>

theorem Get_clear_bit_not_claimed:
  "Get False [0] 7 (FixedTypeAllocator_init [0] 8)
     = (Inr \<lparr>offset = 0, pContainer = Some 7\<rparr>,
        \<lparr>poolBlock = [1, 0, 0, 0, 0, 0, 0, 0, 0], pMem = 1, capacity = 8, sizeP = 1, poolItemSize = 1\<rparr>)
   \<and> write_object 7 \<lparr>poolBlock = [1, 0, 0, 0, 0, 0, 0, 0, 0], pMem = 1, capacity = 8, sizeP = 1, poolItemSize = 1\<rparr>
        \<lparr>offset = 0, pContainer = Some 7\<rparr> [1]
     = Some \<lparr>poolBlock = [1, 1, 0, 0, 0, 0, 0, 0, 0], pMem = 1, capacity = 8, sizeP = 1, poolItemSize = 1\<rparr>
   \<and> Pop 1 7 \<lparr>poolBlock = [1, 1, 0, 0, 0, 0, 0, 0, 0], pMem = 1, capacity = 8, sizeP = 1, poolItemSize = 1\<rparr>
        \<lparr>offset = 8, pContainer = Some 7\<rparr>
     = (Inr (), \<lparr>poolBlock = [1, 0, 0, 0, 0, 0, 0, 0, 0], pMem = 1, capacity = 8, sizeP = 0, poolItemSize = 1\<rparr>,
        \<lparr>offset = 0, pContainer = None\<rparr>)
   \<and> write_object 7 \<lparr>poolBlock = [1, 0, 0, 0, 0, 0, 0, 0, 0], pMem = 1, capacity = 8, sizeP = 0, poolItemSize = 1\<rparr>
        \<lparr>offset = 0, pContainer = Some 7\<rparr> [1]
     = Some \<lparr>poolBlock = [1, 1, 0, 0, 0, 0, 0, 0, 0], pMem = 1, capacity = 8, sizeP = 0, poolItemSize = 1\<rparr>
   \<and> Pop 1 7 \<lparr>poolBlock = [1, 1, 0, 0, 0, 0, 0, 0, 0], pMem = 1, capacity = 8, sizeP = 0, poolItemSize = 1\<rparr>
        \<lparr>offset = 8, pContainer = Some 7\<rparr>
     = (Inr (), \<lparr>poolBlock = [1, 0, 0, 0, 0, 0, 0, 0, 0], pMem = 1, capacity = 8,
                 sizeP = 18446744073709551615, poolItemSize = 1\<rparr>,
        \<lparr>offset = 0, pContainer = None\<rparr>)
   \<and> write_object 7 \<lparr>poolBlock = [1, 0, 0, 0, 0, 0, 0, 0, 0], pMem = 1, capacity = 8,
                      sizeP = 18446744073709551615, poolItemSize = 1\<rparr>
        \<lparr>offset = 0, pContainer = Some 7\<rparr> [1]
     = Some \<lparr>poolBlock = [1, 1, 0, 0, 0, 0, 0, 0, 0], pMem = 1, capacity = 8,
             sizeP = 18446744073709551615, poolItemSize = 1\<rparr>
   \<and> Pop 1 7 \<lparr>poolBlock = [1, 1, 0, 0, 0, 0, 0, 0, 0], pMem = 1, capacity = 8,
               sizeP = 18446744073709551615, poolItemSize = 1\<rparr>
        \<lparr>offset = 8, pContainer = Some 7\<rparr>
     = (Inr (), \<lparr>poolBlock = [1, 0, 0, 0, 0, 0, 0, 0, 0], pMem = 1, capacity = 8,
                 sizeP = 18446744073709551614, poolItemSize = 1\<rparr>,
        \<lparr>offset = 0, pContainer = None\<rparr>)
   \<and> pool_layout \<lparr>poolBlock = [1, 0, 0, 0, 0, 0, 0, 0, 0], pMem = 1, capacity = 8,
                  sizeP = 18446744073709551614, poolItemSize = 1\<rparr>
   \<and> \<not> lut_bit (poolBlock \<lparr>poolBlock = [1, 0, 0, 0, 0, 0, 0, 0, 0], pMem = 1, capacity = 8,
                             sizeP = 18446744073709551614, poolItemSize = 1\<rparr>) 1
   \<and> Get False [0] 7 \<lparr>poolBlock = [1, 0, 0, 0, 0, 0, 0, 0, 0], pMem = 1, capacity = 8,
                      sizeP = 18446744073709551614, poolItemSize = 1\<rparr>
     = (Inr \<lparr>offset = 0, pContainer = None\<rparr>,
        \<lparr>poolBlock = [1, 0, 0, 0, 0, 0, 0, 0, 0], pMem = 1, capacity = 8,
         sizeP = 18446744073709551614, poolItemSize = 1\<rparr>)"
  by code_simp

section \<open>Growth keeps the contents\<close>

text \<open>
  C3. For a pool with the constructor's layout whose doubled block fits a 64-bit size,
  \<open>Reallocate\<close> doubles the capacity and keeps size and element size; the old bitmap
  bytes and the old object region are the prefixes of the new bitmap and of the new object
  region; the added bitmap bytes are zero, so the added slots are free; every slot index
  below the old capacity resolves to the same bytes. A \<open>Get\<close> on a full pool grows it,
  returns the handle of the first new slot, and every earlier slot still resolves to its
  bytes; and after any number of calls of \<open>Get\<close>, with or without growth, every slot
  that was live before resolves to the bytes it had.
\<close>

theorem Reallocate_preserves_contents:
  assumes lay: "pool_layout p" and small: "2 * length (poolBlock p) < 2 ^ 64"
  shows "\<exists>p'. Reallocate p = Inr p'
      \<and> capacity p' = 2 * capacity p \<and> sizeP p' = sizeP p \<and> poolItemSize p' = poolItemSize p
      \<and> take (capacity p div 8) (poolBlock p') = take (capacity p div 8) (poolBlock p)
      \<and> take (poolItemSize p * capacity p) (drop (pMem p') (poolBlock p'))
          = take (poolItemSize p * capacity p) (drop (pMem p) (poolBlock p))
      \<and> (\<forall>k. capacity p div 8 \<le> k \<and> k < capacity p' div 8 \<longrightarrow> poolBlock p' ! k = 0)
      \<and> (\<forall>s. capacity p \<le> s \<and> s < capacity p' \<longrightarrow> \<not> lut_bit (poolBlock p') s)
      \<and> (\<forall>s < capacity p.
            read_object (poolItemSize p) self p' \<lparr>offset = s, pContainer = Some self\<rparr>
            = read_object (poolItemSize p) self p \<lparr>offset = s, pContainer = Some self\<rparr>)
      \<and> (\<forall>T :: Type. size_is_popcount p \<longrightarrow> sizeP p = capacity p \<longrightarrow> 0 < capacity p \<longrightarrow>
             length T = poolItemSize p \<longrightarrow>
             (\<exists>p''. Get True T self p
                       = (Inr \<lparr>offset = capacity p, pContainer = Some self\<rparr>, p'')
                \<and> capacity p'' = 2 * capacity p
                \<and> (\<forall>s < capacity p.
                      read_object (length T) self p'' \<lparr>offset = s, pContainer = Some self\<rparr>
                      = read_object (length T) self p \<lparr>offset = s, pContainer = Some self\<rparr>)))
      \<and> (\<forall>(T :: Type) n. size_is_popcount p \<longrightarrow> length T = poolItemSize p \<longrightarrow>
             2 ^ n * length (poolBlock p) < 2 ^ 64 \<longrightarrow>
             (\<forall>s < capacity p. lut_bit (poolBlock p) s \<longrightarrow>
                read_object (length T) self (Get_times n True T self p)
                  \<lparr>offset = s, pContainer = Some self\<rparr>
                = read_object (length T) self p \<lparr>offset = s, pContainer = Some self\<rparr>))"
proof -
  from Reallocate_effect [OF lay small, of self] obtain p' where
    R: "Reallocate p = Inr p'" "pool_layout p'" "capacity p' = 2 * capacity p"
      "sizeP p' = sizeP p" "poolItemSize p' = poolItemSize p"
      "bitmap p' = bitmap p @ replicate (capacity p div 8) 0"
      "\<forall>k. capacity p \<le> k \<and> k < 2 * capacity p \<longrightarrow> \<not> lut_bit (poolBlock p') k"
      "take (poolItemSize p * capacity p) (drop (pMem p') (poolBlock p'))
          = take (poolItemSize p * capacity p) (drop (pMem p) (poolBlock p))"
      "\<forall>s < capacity p.
            read_object (poolItemSize p) self p' (OffsetPtr_make self s)
            = read_object (poolItemSize p) self p (OffsetPtr_make self s)"
    by blast
  note B = Reallocate_bytes [OF lay R(2,3,6)]
  have G: "\<forall>T :: Type. size_is_popcount p \<longrightarrow> sizeP p = capacity p \<longrightarrow> 0 < capacity p \<longrightarrow>
             length T = poolItemSize p \<longrightarrow>
             (\<exists>p''. Get True T self p
                       = (Inr \<lparr>offset = capacity p, pContainer = Some self\<rparr>, p'')
                \<and> capacity p'' = 2 * capacity p
                \<and> (\<forall>s < capacity p.
                      read_object (length T) self p'' \<lparr>offset = s, pContainer = Some self\<rparr>
                      = read_object (length T) self p \<lparr>offset = s, pContainer = Some self\<rparr>))"
  proof (intro allI impI)
    fix T :: Type
    assume a: "size_is_popcount p" "sizeP p = capacity p" "0 < capacity p"
      "length T = poolItemSize p"
    from Get_growth_step [OF lay a(1,4,2,3) small, of self]
    show "\<exists>p''. Get True T self p
                       = (Inr \<lparr>offset = capacity p, pContainer = Some self\<rparr>, p'')
                \<and> capacity p'' = 2 * capacity p
                \<and> (\<forall>s < capacity p.
                      read_object (length T) self p'' \<lparr>offset = s, pContainer = Some self\<rparr>
                      = read_object (length T) self p \<lparr>offset = s, pContainer = Some self\<rparr>)"
      unfolding OffsetPtr_make_def by blast
  qed
  have S: "\<forall>(T :: Type) n. size_is_popcount p \<longrightarrow> length T = poolItemSize p \<longrightarrow>
             2 ^ n * length (poolBlock p) < 2 ^ 64 \<longrightarrow>
             (\<forall>s < capacity p. lut_bit (poolBlock p) s \<longrightarrow>
                read_object (length T) self (Get_times n True T self p)
                  \<lparr>offset = s, pContainer = Some self\<rparr>
                = read_object (length T) self p \<lparr>offset = s, pContainer = Some self\<rparr>)"
  proof (intro allI impI)
    fix T :: Type and n s assume "size_is_popcount p" "length T = poolItemSize p"
      "2 ^ n * length (poolBlock p) < 2 ^ 64" and s: "s < capacity p" "lut_bit (poolBlock p) s"
    from Get_times_keeps_live [OF lay this(1,2,3), of self] s
    show "read_object (length T) self (Get_times n True T self p)
                  \<lparr>offset = s, pContainer = Some self\<rparr>
                = read_object (length T) self p \<lparr>offset = s, pContainer = Some self\<rparr>"
      unfolding OffsetPtr_make_def by blast
  qed
  from R(7,3) have N: "\<forall>s. capacity p \<le> s \<and> s < capacity p' \<longrightarrow> \<not> lut_bit (poolBlock p') s"
    by simp
  from R(9) have O: "\<forall>s < capacity p.
            read_object (poolItemSize p) self p' \<lparr>offset = s, pContainer = Some self\<rparr>
            = read_object (poolItemSize p) self p \<lparr>offset = s, pContainer = Some self\<rparr>"
    unfolding OffsetPtr_make_def .
  from R(1,3,4,5,8) B N O G S show ?thesis by blast
qed

theorem Reallocate_preserves_contents_witness:
  "pool_layout \<lparr>poolBlock = [255, 1, 2, 3, 4, 5, 6, 7, 8], pMem = 1, capacity = 8, sizeP = 8, poolItemSize = 1\<rparr>
   \<and> 2 * length (poolBlock \<lparr>poolBlock = [255, 1, 2, 3, 4, 5, 6, 7, 8], pMem = 1, capacity = 8, sizeP = 8, poolItemSize = 1\<rparr>) < 2 ^ 64
   \<and> size_is_popcount \<lparr>poolBlock = [255, 1, 2, 3, 4, 5, 6, 7, 8], pMem = 1, capacity = 8, sizeP = 8, poolItemSize = 1\<rparr> \<and> sizeP \<lparr>poolBlock = [255, 1, 2, 3, 4, 5, 6, 7, 8], pMem = 1, capacity = 8, sizeP = 8, poolItemSize = 1\<rparr> = capacity \<lparr>poolBlock = [255, 1, 2, 3, 4, 5, 6, 7, 8], pMem = 1, capacity = 8, sizeP = 8, poolItemSize = 1\<rparr> \<and> 0 < capacity \<lparr>poolBlock = [255, 1, 2, 3, 4, 5, 6, 7, 8], pMem = 1, capacity = 8, sizeP = 8, poolItemSize = 1\<rparr>
   \<and> length [0 :: u8] = poolItemSize \<lparr>poolBlock = [255, 1, 2, 3, 4, 5, 6, 7, 8], pMem = 1, capacity = 8, sizeP = 8, poolItemSize = 1\<rparr>
   \<and> (\<exists>p'. Reallocate \<lparr>poolBlock = [255, 1, 2, 3, 4, 5, 6, 7, 8], pMem = 1, capacity = 8, sizeP = 8, poolItemSize = 1\<rparr> = Inr p' \<and> capacity p' = 2 * capacity \<lparr>poolBlock = [255, 1, 2, 3, 4, 5, 6, 7, 8], pMem = 1, capacity = 8, sizeP = 8, poolItemSize = 1\<rparr>)
   \<and> (\<exists>p''. Get True [0] 7 \<lparr>poolBlock = [255, 1, 2, 3, 4, 5, 6, 7, 8], pMem = 1, capacity = 8, sizeP = 8, poolItemSize = 1\<rparr> = (Inr \<lparr>offset = capacity \<lparr>poolBlock = [255, 1, 2, 3, 4, 5, 6, 7, 8], pMem = 1, capacity = 8, sizeP = 8, poolItemSize = 1\<rparr>, pContainer = Some 7\<rparr>, p'')
         \<and> capacity p'' = 2 * capacity \<lparr>poolBlock = [255, 1, 2, 3, 4, 5, 6, 7, 8], pMem = 1, capacity = 8, sizeP = 8, poolItemSize = 1\<rparr>)
   \<and> read_object 1 7 (snd (Get True [0] 7 \<lparr>poolBlock = [255, 1, 2, 3, 4, 5, 6, 7, 8], pMem = 1, capacity = 8, sizeP = 8, poolItemSize = 1\<rparr>)) \<lparr>offset = 3, pContainer = Some 7\<rparr> = Some [4]"
proof -
  let ?P = "\<lparr>poolBlock = [255, 1, 2, 3, 4, 5, 6, 7, 8], pMem = 1, capacity = 8, sizeP = 8, poolItemSize = 1\<rparr>"
  have a: "pool_layout ?P" by code_simp
  have b: "2 * length (poolBlock ?P) < 2 ^ 64" by code_simp
  have c: "size_is_popcount ?P" by code_simp
  have d: "sizeP ?P = capacity ?P" by code_simp
  have e: "0 < capacity ?P" by code_simp
  have f: "length [0 :: u8] = poolItemSize ?P" by code_simp
  have g: "read_object 1 7 (snd (Get True [0] 7 ?P)) \<lparr>offset = 3, pContainer = Some 7\<rparr> = Some [4]"
    by code_simp
  from Reallocate_preserves_contents [OF a b, of 7] obtain p' where
    R: "Reallocate ?P = Inr p'" "capacity p' = 2 * capacity ?P"
    and G: "\<forall>T :: Type. size_is_popcount ?P \<longrightarrow> sizeP ?P = capacity ?P \<longrightarrow> 0 < capacity ?P \<longrightarrow>
             length T = poolItemSize ?P \<longrightarrow>
             (\<exists>p''. Get True T 7 ?P
                       = (Inr \<lparr>offset = capacity ?P, pContainer = Some 7\<rparr>, p'')
                \<and> capacity p'' = 2 * capacity ?P
                \<and> (\<forall>s < capacity ?P.
                      read_object (length T) 7 p'' \<lparr>offset = s, pContainer = Some 7\<rparr>
                      = read_object (length T) 7 ?P \<lparr>offset = s, pContainer = Some 7\<rparr>))"
    by blast
  from G [rule_format, OF c d e f]
  have "\<exists>p''. Get True [0] 7 ?P = (Inr \<lparr>offset = capacity ?P, pContainer = Some 7\<rparr>, p'')
         \<and> capacity p'' = 2 * capacity ?P" by blast
  with R a b c d e f g show ?thesis by blast
qed

section \<open>The bounds check of Pop\<close>

text \<open>
  C2 at its failing input. A pool of eight one-byte elements holds one object, in slot 0,
  with the value 1. \<open>Pop\<close> of the handle with index 8, the capacity, passes the bounds
  check, which rejects only addresses beyond \<^verbatim>\<open>pMem + capacity\<close>: no error is
  raised, the byte after the bitmap (the object in slot 0) is read as a bitmap byte and
  its low bit flipped, and size drops to 0 while bit 0 of the bitmap stays set. On an
  empty pool the same call returns normally and changes nothing. Indices above the
  capacity are rejected, as \<open>Pop_out_of_range\<close> shows.
\<close>

theorem Pop_at_capacity_not_rejected:
  "Get True [0] 7 (FixedTypeAllocator_init [0] 8)
     = (Inr (OffsetPtr_make 7 0),
        \<lparr>poolBlock = [1, 0, 0, 0, 0, 0, 0, 0, 0], pMem = 1, capacity = 8, sizeP = 1,
           poolItemSize = 1\<rparr>)
   \<and> write_object 7 \<lparr>poolBlock = [1, 0, 0, 0, 0, 0, 0, 0, 0], pMem = 1, capacity = 8, sizeP = 1,
           poolItemSize = 1\<rparr> (OffsetPtr_make 7 0) [1]
     = Some \<lparr>poolBlock = [1, 1, 0, 0, 0, 0, 0, 0, 0], pMem = 1, capacity = 8, sizeP = 1,
           poolItemSize = 1\<rparr>
   \<and> Pop 1 7 \<lparr>poolBlock = [1, 1, 0, 0, 0, 0, 0, 0, 0], pMem = 1, capacity = 8, sizeP = 1,
           poolItemSize = 1\<rparr> (OffsetPtr_make 7 8)
     = (Inr (),
        \<lparr>poolBlock = [1, 0, 0, 0, 0, 0, 0, 0, 0], pMem = 1, capacity = 8, sizeP = 0,
           poolItemSize = 1\<rparr>,
        OffsetPtr_default)
   \<and> Pop 1 7 (FixedTypeAllocator_init [0] 8) (OffsetPtr_make 7 8)
     = (Inr (), FixedTypeAllocator_init [0] 8, OffsetPtr_make 7 8)"
  by code_simp

section \<open>Size and popcount\<close>

text \<open>
  The invariant holds for a fresh pool (\<open>Pool_init_inv\<close>) and is kept by
  \<open>Reallocate\<close> (\<open>Reallocate_effect\<close>, \<open>Reallocate_popcount\<close>), by every \<open>Get\<close>
  (\<open>Get_step\<close>) and by \<open>Pop\<close> of a handle with an index below the capacity
  (\<open>Pop_step\<close>).

  C6 at its failing input. In a pool of eight one-byte elements with one live object of
  value 1 in slot 0, layout and invariant hold; \<open>Pop\<close> of the handle with index 8,
  the capacity, returns normally and the pool it leaves has size 0 and one bit set.
\<close>

theorem Pop_at_capacity_breaks_size_invariant:
  "size_is_popcount \<lparr>poolBlock = [1, 1, 0, 0, 0, 0, 0, 0, 0], pMem = 1, capacity = 8, sizeP = 1,
           poolItemSize = 1\<rparr>
   \<and> pool_layout \<lparr>poolBlock = [1, 1, 0, 0, 0, 0, 0, 0, 0], pMem = 1, capacity = 8, sizeP = 1,
           poolItemSize = 1\<rparr>
   \<and> fst (Pop 1 7 \<lparr>poolBlock = [1, 1, 0, 0, 0, 0, 0, 0, 0], pMem = 1, capacity = 8, sizeP = 1,
           poolItemSize = 1\<rparr> (OffsetPtr_make 7 8)) = Inr ()
   \<and> sizeP (fst (snd (Pop 1 7 \<lparr>poolBlock = [1, 1, 0, 0, 0, 0, 0, 0, 0], pMem = 1, capacity = 8, sizeP = 1,
           poolItemSize = 1\<rparr> (OffsetPtr_make 7 8)))) = 0
   \<and> popcount (bitmap (fst (snd (Pop 1 7 \<lparr>poolBlock = [1, 1, 0, 0, 0, 0, 0, 0, 0], pMem = 1, capacity = 8, sizeP = 1,
           poolItemSize = 1\<rparr> (OffsetPtr_make 7 8))))) = 1
   \<and> \<not> size_is_popcount (fst (snd (Pop 1 7 \<lparr>poolBlock = [1, 1, 0, 0, 0, 0, 0, 0, 0], pMem = 1, capacity = 8, sizeP = 1,
           poolItemSize = 1\<rparr> (OffsetPtr_make 7 8))))"
  by code_simp

section \<open>Iteration\<close>

text \<open>
  While the capacity is at most eight times \<open>Size\<close> the active traversal visits the live
  slots, each once, in ascending order (\<open>ForAllActive_small\<close>), and on a full pool it
  visits what the fast traversal visits (\<open>ForAll_full_agree\<close>).

  C9 at its failing input. An allocator with \<open>Size = 8\<close> for one-byte elements has
  grown four times after 65 calls of \<open>Get\<close>: its capacity is 128, the live slots are 0
  to 64, and the object region starts at offset 16. The active traversal reads the bitmap
  byte \<^verbatim>\<open>(i / 8) % Size\<close>, so for the slots from 64 on it reads the bytes of the slots
  0 to 63 again: it calls the visitor on all 128 slots, 63 of which are free.
\<close>

theorem ForAllActive_visits_free_slots:
  "sizeP (Get_times 65 True [0] 7 (FixedTypeAllocator_init [0] 8)) = 65
   \<and> capacity (Get_times 65 True [0] 7 (FixedTypeAllocator_init [0] 8)) = 128
   \<and> pMem (Get_times 65 True [0] 7 (FixedTypeAllocator_init [0] 8)) = 16
   \<and> filter (lut_bit (poolBlock (Get_times 65 True [0] 7 (FixedTypeAllocator_init [0] 8))))
        [0..<128] = [0..<65]
   \<and> ForAllActive 8 1 (Get_times 65 True [0] 7 (FixedTypeAllocator_init [0] 8)) record_visit []
       = Inr [16..<144]"
proof -
  define P where "P = Get_times 65 True [0] 7 (FixedTypeAllocator_init [0] 8)"
  note A = after_65_allocations [of 7, folded P_def]
  from A(1) have lay: "pool_layout P" and inv: "size_is_popcount P"
    and bits: "\<And>k. k < capacity P \<Longrightarrow> lut_bit (poolBlock P) k = (k < sizeP P)"
    by (simp_all add: packed_def)
  have pm: "pMem P = 16" using layout_facts(6) [OF lay] A(3) by simp
  have len: "length (poolBlock P) = 144" using layout_length_1 [OF lay A(4)] A(3) by simp
  have live: "filter (lut_bit (poolBlock P)) [0..<128] = [0..<65]"
  proof -
    have "filter (lut_bit (poolBlock P)) [0..<128] = filter (\<lambda>k. k < 65) [0..<128]"
    proof (rule filter_cong)
      show "[0..<128] = [0..<(128::nat)]" by simp
    next
      fix k :: nat assume "k \<in> set [0..<128]"
      then have "k < capacity P" using A(3) by simp
      from bits [OF this] A(2) show "lut_bit (poolBlock P) k = (k < 65)" by simp
    qed
    also have "\<dots> = [0..<65]" by (rule filter_less_upt) simp
    finally show ?thesis .
  qed
  have b: "\<forall>i < capacity P. (i div 8) mod 8 < length (poolBlock P)"
  proof (intro allI impI)
    fix i :: nat
    have "(i div 8) mod 8 < 8" by simp
    with len show "(i div 8) mod 8 < length (poolBlock P)" by simp
  qed
  have all: "filter (active 8 P) [0..<capacity P] = [0..<capacity P]"
  proof (rule filter_True, rule ballI)
    fix i assume "i \<in> set [0..<capacity P]"
    have x: "(i div 8) mod 8 < 8" and y: "i mod 8 < 8" by simp_all
    then have "((i div 8) mod 8) * 8 + i mod 8 < 64" by arith
    then have "((i div 8) mod 8) * 8 + i mod 8 < capacity P"
      "((i div 8) mod 8) * 8 + i mod 8 < sizeP P" using A(2,3) by simp_all
    with bits show "active 8 P i" by (simp add: active_lut_bit)
  qed
  have "ForAllActive 8 1 P record_visit [] = Inr (map (\<lambda>k. pMem P + k * 1) [0..<capacity P])"
    using ForAllActive_visits [of 8 P 1] b all by simp
  also have "map (\<lambda>k. pMem P + k * 1) [0..<capacity P] = map (\<lambda>k. k + 16) [0..<128]"
    using pm A(3) by (simp add: add.commute)
  also have "\<dots> = [16..<144]" using map_add_upt [of 16 128] by simp
  finally have visit: "ForAllActive 8 1 P record_visit [] = Inr [16..<144]" .
  from A(2,3) pm live visit show ?thesis unfolding P_def by simp
qed

section \<open>The address of a handle of the general-purpose allocator\<close>

text \<open>
  The pool of a class is built by \<^verbatim>\<open>AddPools\<close> with elements of the class size, so its
  slot \<open>i\<close> starts at \<open>pMem + i * poolItemSize\<close>. \<open>New\<close> uses it through
  \<^verbatim>\<open>FixedTypeAllocator<Padding<sizeof(Type)>, ...>\<close>, and the handle resolves with
  \<^verbatim>\<open>sizeof(Type)\<close>, to \<open>pMem + i * sizeof(Type)\<close> (\<open>New_resolve_addresses\<close>). The two
  agree for slot 0 and for a type of exactly the class size.

  C4 at its failing input. With the classes 2 and 4 and pools of 8 slots, a 3-byte type is
  routed to class 4. The second \<open>New\<close> claims slot 1 of that pool; its handle resolves to
  offset 4 of the block, while slot 1 of the pool begins at offset 5. A 4-byte object in
  slot 0 holding 1, 2, 3, 4 loses its last byte when a 3-byte object is then allocated in
  slot 1.
\<close>

theorem New_resolves_with_the_wrong_stride:
  "fst (New True 3 (GeneralPurposeAllocator_init 8 [2, 4])) = Inr \<lparr>offset = 0, pContainer = Some 4\<rparr>
   \<and> fst (New True 3 (snd (New True 3 (GeneralPurposeAllocator_init 8 [2, 4]))))
       = Inr \<lparr>offset = 1, pContainer = Some 4\<rparr>
   \<and> map_option poolItemSize
        (m_Pools (snd (New True 3 (snd (New True 3 (GeneralPurposeAllocator_init 8 [2, 4]))))) 4)
       = Some 4
   \<and> map_option (\<lambda>p. Resolve 3 4 p \<lparr>offset = 1, pContainer = Some 4\<rparr>)
        (m_Pools (snd (New True 3 (snd (New True 3 (GeneralPurposeAllocator_init 8 [2, 4]))))) 4)
       = Some (Some 4)
   \<and> map_option (\<lambda>p. Resolve (poolItemSize p) 4 p \<lparr>offset = 1, pContainer = Some 4\<rparr>)
        (m_Pools (snd (New True 3 (snd (New True 3 (GeneralPurposeAllocator_init 8 [2, 4]))))) 4)
       = Some (Some 5)
   \<and> fst (New True 4 (GeneralPurposeAllocator_init 8 [2, 4])) = Inr \<lparr>offset = 0, pContainer = Some 4\<rparr>
   \<and> (case GPA_write (snd (New True 4 (GeneralPurposeAllocator_init 8 [2, 4])))
              \<lparr>offset = 0, pContainer = Some 4\<rparr> [1, 2, 3, 4] of
         None \<Rightarrow> False
       | Some g \<Rightarrow>
           GPA_read 4 g \<lparr>offset = 0, pContainer = Some 4\<rparr> = Some [1, 2, 3, 4]
           \<and> fst (New True 3 g) = Inr \<lparr>offset = 1, pContainer = Some 4\<rparr>
           \<and> GPA_read 4 (snd (New True 3 g)) \<lparr>offset = 0, pContainer = Some 4\<rparr>
               = Some [1, 2, 3, 0])"
  by code_simp

end
